theory Spec2Isabelle
  imports Main "HOL-Library.Multiset" "HOL-Library.Option_ord"
begin

section \<open>The feeds table and its two scheduler queries (sql/queries, feeds.sql)\<close>

text \<open>
  A row of the \<^verbatim>\<open>feeds\<close> table as \<^verbatim>\<open>SELECT *\<close> returns it. UUIDs are opaque
  identifiers (natural numbers here), a \<^verbatim>\<open>TIMESTAMP\<close> is a count of microseconds, and
  the nullable column \<^verbatim>\<open>last_fetched_at\<close> is an option: \<open>None\<close> is SQL NULL.
\<close>

type_synonym uuid = nat
type_synonym timestamp = int

record feed =
  ID :: uuid
  CreatedAt :: timestamp
  UpdatedAt :: timestamp
  Name :: string
  Url :: string
  UserID :: uuid
  LastFetchedAt :: "timestamp option"

text \<open>
  Errors are values. The constructors follow the \<^verbatim>\<open>fmt.Errorf\<close> calls of the source;
  an error wrapped with \<^verbatim>\<open>%w\<close> carries the wrapped error, and an error coming from a
  library (driver, HTTP transport, XML or JSON decoder) carries its message.
\<close>

datatype error =
    ErrNoRows
  | ErrDriver string
  | ErrStateNil
  | ErrTimeRequired
  | ErrInvalidDuration string
  | ErrQueriesNil
  | ErrGetNextFeed error
  | ErrMarkFetched error
  | ErrFetchMarked string error
  | ErrFeedURLEmpty
  | ErrCreateRequest string
  | ErrFetching string
  | ErrContentType string
  | ErrStatus string
  | ErrReadBody string
  | ErrUnmarshal string
  | ErrHomeDir string
  | ErrGetPath error
  | ErrOpenConfig string
  | ErrDecode string
  | ErrReadConfig error
  | ErrMarshal string
  | ErrWriteJson string
  | ErrWriteConfig error
  | ErrUnique string
  | ErrForeignKey string

text \<open>
  \<^verbatim>\<open>ORDER BY last_fetched_at ASC NULLS FIRST\<close>: the query fixes the sort key only. The
  rows come back in some order that holds the same rows and is ascending in the key, with
  NULL before every timestamp (the order of \<open>timestamp option\<close> puts \<open>None\<close> first).
  The query names no second key, so the order among rows with equal keys is the
  engine's; \<open>ORDER_BY_last_fetched_at rows ordered\<close> says that \<open>ordered\<close> is an answer the
  engine may give.
\<close>

definition ORDER_BY_last_fetched_at :: "feed list \<Rightarrow> feed list \<Rightarrow> bool" where
  "ORDER_BY_last_fetched_at rows ordered \<longleftrightarrow>
     mset ordered = mset rows \<and> sorted (map LastFetchedAt ordered)"

definition LIMIT :: "nat \<Rightarrow> 'a list \<Rightarrow> 'a list" where
  "LIMIT n rows = take n rows"

text \<open>A \<^verbatim>\<open>:one\<close> query scans the first row of the result, or fails with \<^verbatim>\<open>sql.ErrNoRows\<close>.\<close>

definition one :: "'a list \<Rightarrow> error + 'a" where
  "one rows = (case rows of [] \<Rightarrow> Inl ErrNoRows | r # _ \<Rightarrow> Inr r)"

text \<open>
  \<^verbatim>\<open>SELECT * FROM feeds ORDER BY last_fetched_at ASC NULLS FIRST LIMIT 1\<close>, applied to
  the ordered rows.
\<close>

definition GetNextFeedToFetch :: "feed list \<Rightarrow> error + feed" where
  "GetNextFeedToFetch ordered = one (LIMIT 1 ordered)"

text \<open>
  \<^verbatim>\<open>UPDATE feeds SET updated_at = NOW(), last_fetched_at = NOW() WHERE id = $1\<close>,
  with the value of \<^verbatim>\<open>NOW()\<close> passed in.
\<close>

definition MarkFeedFetched :: "timestamp \<Rightarrow> uuid \<Rightarrow> feed list \<Rightarrow> feed list" where
  "MarkFeedFetched now fid rows =
     map (\<lambda>f. if ID f = fid then f\<lparr>UpdatedAt := now, LastFetchedAt := Some now\<rparr> else f) rows"

text \<open>
  Four rows for concrete evaluation: two feeds that were never fetched, and two that were
  last fetched at the same time.
\<close>

definition feed_A :: feed where
  "feed_A = \<lparr>ID = 1, CreatedAt = 100, UpdatedAt = 100, Name = ''A'', Url = ''https://a.example/rss'',
              UserID = 7, LastFetchedAt = None\<rparr>"

definition feed_B :: feed where
  "feed_B = \<lparr>ID = 2, CreatedAt = 50, UpdatedAt = 400, Name = ''B'', Url = ''https://b.example/rss'',
              UserID = 7, LastFetchedAt = Some 400\<rparr>"

definition feed_C :: feed where
  "feed_C = \<lparr>ID = 3, CreatedAt = 120, UpdatedAt = 120, Name = ''C'', Url = ''https://c.example/rss'',
              UserID = 8, LastFetchedAt = None\<rparr>"

definition feed_D :: feed where
  "feed_D = \<lparr>ID = 4, CreatedAt = 60, UpdatedAt = 400, Name = ''D'', Url = ''https://d.example/rss'',
              UserID = 8, LastFetchedAt = Some 400\<rparr>"

section \<open>The feed fetcher (internal/rssfeed/rssfeed.go)\<close>

record atom_link =
  Href :: string
  Rel :: string
  Type :: string

record rss_item =
  Title_item :: string
  Link_item :: string
  PubDate :: string
  GUID :: string
  Description_item :: string

record channel =
  Title :: string
  Link :: string
  Description :: string
  Generator :: string
  Language :: string
  LastBuildDate :: string
  Atom :: atom_link
  Items :: "rss_item list"

record rss_feed =
  Channel :: channel

text \<open>
  What \<^verbatim>\<open>client.Do\<close> hands back: the \<^verbatim>\<open>Content-Type\<close> header, the numeric status
  and its text, and the body, whose reading (\<^verbatim>\<open>io.ReadAll\<close>) can fail.
\<close>

record response =
  ContentType :: string
  StatusCode :: int
  Status :: string
  Body :: "string + string"

text \<open>
  The libraries and the outside world, as one scrape cycle meets them: the standard
  library's \<^verbatim>\<open>http.NewRequestWithContext\<close> (its error, if any), the network behind
  \<^verbatim>\<open>client.Do\<close> (a transport error, which covers the context's timeout, or a response),
  \<^verbatim>\<open>xml.Unmarshal\<close>, \<^verbatim>\<open>html.UnescapeString\<close>; and the database: the order in which
  the engine answers \<^verbatim>\<open>ORDER BY\<close>, a driver failure of either query, and the value of
  \<^verbatim>\<open>NOW()\<close>.
\<close>

record env =
  NewRequest_err :: "string \<Rightarrow> string option"
  client_Do :: "string \<Rightarrow> string + response"
  xml_Unmarshal :: "string \<Rightarrow> string + rss_feed"
  UnescapeString :: "string \<Rightarrow> string"
  engine_order :: "feed list \<Rightarrow> feed list"
  select_fault :: "string option"
  mark_fault :: "string option"
  NOW :: timestamp

text \<open>What the program does that can be observed, in the order it does it.\<close>

datatype message =
    WarnNoTitle
  | WarnNoLink
  | WarnNoDescription
  | WarnNoItems
  | NoFeedsFound
  | FetchingFeed string string
  | FeedHeader string
  | ItemLine string
  | BlankLine
  | ErrorScraping error
  | CollectingEvery int

datatype event =
    Println message
  | Query_GetNextFeedToFetch
  | Exec_MarkFeedFetched uuid
  | HTTP_GET string
  | TickerWait

text \<open>\<^verbatim>\<open>strings.Contains\<close>.\<close>

fun Contains :: "string \<Rightarrow> string \<Rightarrow> bool" where
  "Contains [] substr = (substr = [])"
| "Contains (c # s) substr = (take (length substr) (c # s) = substr \<or> Contains s substr)"

text \<open>The four checks after unmarshalling print a warning each and reject nothing.\<close>

definition validation_warnings :: "rss_feed \<Rightarrow> event list" where
  "validation_warnings feed =
     (if Title (Channel feed) = [] then [Println WarnNoTitle] else [])
     @ (if Link (Channel feed) = [] then [Println WarnNoLink] else [])
     @ (if Description (Channel feed) = [] then [Println WarnNoDescription] else [])
     @ (if length (Items (Channel feed)) = 0 then [Println WarnNoItems] else [])"

text \<open>
  The unescaping block at the end of \<^verbatim>\<open>FetchFeed\<close>, assignment by assignment: eight for
  the channel, five for every item.
\<close>

definition unescape_channel :: "(string \<Rightarrow> string) \<Rightarrow> channel \<Rightarrow> channel" where
  "unescape_channel u c =
     c\<lparr>Title := u (Title c),
       Description := u (Description c),
       Generator := u (Generator c),
       Language := u (Language c),
       LastBuildDate := u (LastBuildDate c),
       Atom := (Atom c)\<lparr>Href := u (Href (Atom c)), Rel := u (Rel (Atom c)),
                        Type := u (Type (Atom c))\<rparr>\<rparr>"

definition unescape_item :: "(string \<Rightarrow> string) \<Rightarrow> rss_item \<Rightarrow> rss_item" where
  "unescape_item u it =
     it\<lparr>Title_item := u (Title_item it),
        Link_item := u (Link_item it),
        PubDate := u (PubDate it),
        GUID := u (GUID it),
        Description_item := u (Description_item it)\<rparr>"

definition unescape_feed :: "(string \<Rightarrow> string) \<Rightarrow> rss_feed \<Rightarrow> rss_feed" where
  "unescape_feed u feed =
     feed\<lparr>Channel := (unescape_channel u (Channel feed))
             \<lparr>Items := map (unescape_item u) (Items (Channel feed))\<rparr>\<rparr>"

text \<open>
  \<^verbatim>\<open>FetchFeed\<close> returns the feed or the error, and the events it caused: the GET once
  the request is sent, and the warnings.
\<close>

definition FetchFeed :: "env \<Rightarrow> string \<Rightarrow> (error + rss_feed) \<times> event list" where
  "FetchFeed e feedURL =
     (if feedURL = [] then (Inl ErrFeedURLEmpty, [])
      else case NewRequest_err e feedURL of
        Some m \<Rightarrow> (Inl (ErrCreateRequest m), [])
      | None \<Rightarrow>
         (case client_Do e feedURL of
            Inl m \<Rightarrow> (Inl (ErrFetching m), [HTTP_GET feedURL])
          | Inr res \<Rightarrow>
             if \<not> Contains (ContentType res) ''xml''
             then (Inl (ErrContentType (ContentType res)), [HTTP_GET feedURL])
             else if StatusCode res > 299
             then (Inl (ErrStatus (Status res)), [HTTP_GET feedURL])
             else (case Body res of
                Inl m \<Rightarrow> (Inl (ErrReadBody m), [HTTP_GET feedURL])
              | Inr data \<Rightarrow>
                 (case xml_Unmarshal e data of
                    Inl m \<Rightarrow> (Inl (ErrUnmarshal m), [HTTP_GET feedURL])
                  | Inr feed \<Rightarrow>
                     (Inr (unescape_feed (UnescapeString e) feed),
                      HTTP_GET feedURL # validation_warnings feed)))))"

section \<open>The scheduler (internal/handlers/handlers.go)\<close>

text \<open>
  The state the scheduler works on: the rows of the feeds table, and the trace of
  what has happened so far, oldest event first.
\<close>

record world =
  feeds :: "feed list"
  trace :: "event list"

definition emit :: "event list \<Rightarrow> world \<Rightarrow> world" where
  "emit evs w = w\<lparr>trace := trace w @ evs\<rparr>"

text \<open>The generated bindings: the query, or the driver's error.\<close>

definition queries_GetNextFeedToFetch :: "env \<Rightarrow> feed list \<Rightarrow> error + feed" where
  "queries_GetNextFeedToFetch e rows =
     (case select_fault e of
        Some m \<Rightarrow> Inl (ErrDriver m)
      | None \<Rightarrow> GetNextFeedToFetch (engine_order e rows))"

definition queries_MarkFeedFetched :: "env \<Rightarrow> uuid \<Rightarrow> feed list \<Rightarrow> error + feed list" where
  "queries_MarkFeedFetched e fid rows =
     (case mark_fault e of
        Some m \<Rightarrow> Inl (ErrDriver m)
      | None \<Rightarrow> Inr (MarkFeedFetched (NOW e) fid rows))"

text \<open>
  \<^verbatim>\<open>*database.Queries\<close> is a handle (nil is \<open>None\<close>); the table it reaches is in the
  world. \<^verbatim>\<open>app.State\<close> and \<^verbatim>\<open>app.Command\<close> are the structs of the source.
\<close>

datatype queries = Queries

record config =
  URL :: "string option"
  Name_config :: "string option"

record state =
  Config :: "config option"
  DB :: "queries option"

record command =
  Name_command :: string
  Args :: "string list"

text \<open>The lines \<^verbatim>\<open>scrapeFeeds\<close> prints for a fetched feed.\<close>

definition feed_report :: "string \<Rightarrow> rss_feed \<Rightarrow> event list" where
  "feed_report feedName feed =
     Println (FeedHeader feedName)
     # map (\<lambda>item. Println (ItemLine (Title_item item))) (Items (Channel feed))
     @ [Println BlankLine]"

definition scrapeFeeds :: "env \<Rightarrow> queries option \<Rightarrow> world \<Rightarrow> error option \<times> world" where
  "scrapeFeeds e qs w =
     (if qs = None then (Some ErrQueriesNil, w)
      else
        let w1 = emit [Query_GetNextFeedToFetch] w in
        case queries_GetNextFeedToFetch e (feeds w) of
          Inl err \<Rightarrow>
            if err = ErrNoRows then (None, emit [Println NoFeedsFound] w1)
            else (Some (ErrGetNextFeed err), w1)
        | Inr nextFeed \<Rightarrow>
            let feedID = ID nextFeed; feedName = Name nextFeed; feedURL = Url nextFeed;
                w2 = emit [Exec_MarkFeedFetched feedID] w1 in
            case queries_MarkFeedFetched e feedID (feeds w) of
              Inl err \<Rightarrow> (Some (ErrMarkFetched err), w2)
            | Inr rows \<Rightarrow>
                let w3 = emit [Println (FetchingFeed feedName feedURL)] (w2\<lparr>feeds := rows\<rparr>);
                    fetched = FetchFeed e feedURL;
                    w4 = emit (snd fetched) w3 in
                case fst fetched of
                  Inl err \<Rightarrow> (Some (ErrFetchMarked feedName err), w4)
                | Inr feed \<Rightarrow> (None, emit (feed_report feedName feed) w4))"

text \<open>
  \<^verbatim>\<open>HandlerAgg\<close> up to its loop. It returns an error, or panics inside
  \<^verbatim>\<open>time.NewTicker\<close> (which panics on a non-positive interval), or reaches the loop with
  the database handle of the state and the first line printed. \<^verbatim>\<open>time.ParseDuration\<close>
  is the standard library's and is a parameter: the error text, or the duration in
  nanoseconds.
\<close>

datatype outcome = Returned "error option" | Panicked string | Running

definition HandlerAgg_startup ::
  "(string \<Rightarrow> string + int) \<Rightarrow> state option \<Rightarrow> command \<Rightarrow> world
     \<Rightarrow> (outcome \<times> world) + (queries option \<times> world)" where
  "HandlerAgg_startup ParseDuration s cmd w =
     (case s of
        None \<Rightarrow> Inl (Returned (Some ErrStateNil), w)
      | Some st \<Rightarrow>
          if length (Args cmd) < 1 then Inl (Returned (Some ErrTimeRequired), w)
          else
            (case ParseDuration (Args cmd ! 0) of
               Inl m \<Rightarrow> Inl (Returned (Some (ErrInvalidDuration m)), w)
             | Inr timeBetweenRequests \<Rightarrow>
                 if timeBetweenRequests \<le> 0
                 then Inl (Panicked ''non-positive interval for NewTicker'', w)
                 else Inr (DB st, emit [Println (CollectingEvery timeBetweenRequests)] w)))"

text \<open>
  The body of the loop: scrape, print the error if there is one, then block on the
  ticker's channel.
\<close>

definition report_error :: "error option \<times> world \<Rightarrow> world" where
  "report_error scraped =
     (case fst scraped of
        None \<Rightarrow> snd scraped
      | Some err \<Rightarrow> emit [Println (ErrorScraping err)] (snd scraped))"

definition agg_iteration :: "env \<Rightarrow> queries option \<Rightarrow> world \<Rightarrow> world" where
  "agg_iteration e qs w = emit [TickerWait] (report_error (scrapeFeeds e qs w))"

text \<open>
  The loop \<^verbatim>\<open>for { ... }\<close> has no \<^verbatim>\<open>break\<close> and no \<^verbatim>\<open>return\<close>, so it never ends; a run
  of it is observed after a number of iterations. \<open>agg_loop envs qs k n w\<close> runs \<open>n\<close>
  iterations from the world \<open>w\<close>, the first of them meeting the environment \<open>envs k\<close>,
  and answers \<open>Running\<close> with the world reached: the command is then at the head of its
  loop again.
\<close>

fun agg_loop ::
  "(nat \<Rightarrow> env) \<Rightarrow> queries option \<Rightarrow> nat \<Rightarrow> nat \<Rightarrow> world \<Rightarrow> outcome \<times> world" where
  "agg_loop envs qs k 0 w = (Running, w)"
| "agg_loop envs qs k (Suc n) w = agg_loop envs qs (Suc k) n (agg_iteration (envs k) qs w)"

text \<open>
  \<^verbatim>\<open>HandlerAgg\<close>, observed when it has returned or panicked, or else when it has gone
  through \<open>n\<close> iterations of its loop: it does not return exactly when the outcome is
  \<open>Running\<close> for every \<open>n\<close>.
\<close>

definition HandlerAgg ::
  "(string \<Rightarrow> string + int) \<Rightarrow> (nat \<Rightarrow> env) \<Rightarrow> state option \<Rightarrow> command \<Rightarrow> world \<Rightarrow> nat
     \<Rightarrow> outcome \<times> world" where
  "HandlerAgg ParseDuration envs s cmd w n =
     (case HandlerAgg_startup ParseDuration s cmd w of
        Inl result \<Rightarrow> result
      | Inr (qs, w0) \<Rightarrow> agg_loop envs qs 0 n w0)"

section \<open>Concrete inputs\<close>

text \<open>
  A few values of \<^verbatim>\<open>time.ParseDuration\<close>, for evaluation at concrete command lines:
  the three intervals the documentation of the command gives, a zero and a negative
  duration (both of which the library parses), and a string it rejects. The theorems
  below hold for every parsing function; this table stands for the library only at the
  strings it lists.
\<close>

definition ParseDuration_sample :: "string \<Rightarrow> string + int" where
  "ParseDuration_sample s =
     (if s = ''30s'' then Inr 30000000000
      else if s = ''5m'' then Inr 300000000000
      else if s = ''1h'' then Inr 3600000000000
      else if s = ''0s'' then Inr 0
      else if s = ''-1s'' then Inr (- 1000000000)
      else Inl (''time: invalid duration '' @ s))"

text \<open>
  A stand-in for \<^verbatim>\<open>html.UnescapeString\<close> that knows the entity \<^verbatim>\<open>&amp;\<close> only.
\<close>

fun unescape_amp :: "string \<Rightarrow> string" where
  "unescape_amp [] = []"
| "unescape_amp (c # s) =
     (if take 5 (c # s) = ''&amp;'' then CHR ''&'' # unescape_amp (drop 4 s)
      else c # unescape_amp s)"

text \<open>A server that answers every request with status 500 and an XML content type.\<close>

definition response_500 :: response where
  "response_500 = \<lparr>ContentType = ''text/xml; charset=utf-8'', StatusCode = 500,
                    Status = ''500 Internal Server Error'', Body = Inr []\<rparr>"

definition env_500 :: env where
  "env_500 = \<lparr>NewRequest_err = (\<lambda>url. None), client_Do = (\<lambda>url. Inr response_500),
               xml_Unmarshal = (\<lambda>data. Inl ''EOF''), UnescapeString = unescape_amp,
               engine_order = sort_key LastFetchedAt, select_fault = None, mark_fault = None,
               NOW = 1000\<rparr>"

text \<open>
  A server that answers with a feed whose channel link and whose one item's link both
  still hold the entity \<^verbatim>\<open>&amp;\<close> after XML decoding.
\<close>

definition feed_escaped :: rss_feed where
  "feed_escaped =
     \<lparr>Channel = \<lparr>Title = ''News &amp; more'', Link = ''https://a.example/?x=1&amp;y=2'',
                  Description = ''d'', Generator = ''g'', Language = ''en'',
                  LastBuildDate = ''Mon, 02 Jan 2006 15:04:05 GMT'',
                  Atom = \<lparr>Href = ''https://a.example/rss'', Rel = ''self'',
                          Type = ''application/rss+xml''\<rparr>,
                  Items = [\<lparr>Title_item = ''Hello'', Link_item = ''https://a.example/p?x=1&amp;y=2'',
                            PubDate = ''Mon, 02 Jan 2006 15:04:05 GMT'', GUID = ''1'',
                            Description_item = ''body''\<rparr>]\<rparr>\<rparr>"

definition response_ok :: response where
  "response_ok = \<lparr>ContentType = ''application/rss+xml'', StatusCode = 200,
                   Status = ''200 OK'', Body = Inr ''<rss/>''\<rparr>"

definition env_ok :: env where
  "env_ok = \<lparr>NewRequest_err = (\<lambda>url. None), client_Do = (\<lambda>url. Inr response_ok),
              xml_Unmarshal = (\<lambda>data. Inr feed_escaped), UnescapeString = unescape_amp,
              engine_order = sort_key LastFetchedAt, select_fault = None, mark_fault = None,
              NOW = 1000\<rparr>"

definition world_AB :: world where
  "world_AB = \<lparr>feeds = [feed_B, feed_A], trace = []\<rparr>"

definition state_0 :: state where
  "state_0 = \<lparr>Config = None, DB = Some Queries\<rparr>"

definition envs_sample :: "nat \<Rightarrow> env" where
  "envs_sample k = (if k = 0 then env_500 else env_ok)"

definition cmd_30s :: command where
  "cmd_30s = \<lparr>Name_command = ''agg'', Args = [''30s'']\<rparr>"

definition cmd_0s :: command where
  "cmd_0s = \<lparr>Name_command = ''agg'', Args = [''0s'']\<rparr>"

definition cmd_soon :: command where
  "cmd_soon = \<lparr>Name_command = ''agg'', Args = [''soon'']\<rparr>"

section \<open>The configuration file (internal/config/config.go)\<close>

text \<open>
  The operating system as \<^verbatim>\<open>config.go\<close> meets it: \<^verbatim>\<open>os.UserHomeDir\<close> (an error
  text, or the directory), \<^verbatim>\<open>filepath.Join\<close>, the files by path (absent, present but
  refused by \<^verbatim>\<open>os.Open\<close>, or present with their contents), and the error of
  \<^verbatim>\<open>os.WriteFile\<close> on a path, if it has one. The standard library's JSON decoder and
  \<^verbatim>\<open>json.MarshalIndent\<close> are parameters: the decoder gives the struct it filled and its
  error, if any.
\<close>

datatype config_file = NoFile | Unreadable string | Contents string

record os =
  UserHomeDir :: "string + string"
  Join :: "string \<Rightarrow> string \<Rightarrow> string"
  files :: "string \<Rightarrow> config_file"
  WriteFile_err :: "string \<Rightarrow> string option"

record json =
  Decode :: "string \<Rightarrow> config \<times> string option"
  MarshalIndent :: "config \<Rightarrow> string + string"

definition configFileName :: string where
  "configFileName = ''.gatorconfig.json''"

text \<open>\<^verbatim>\<open>Config{}\<close>: both pointers nil.\<close>

definition empty_config :: config where
  "empty_config = \<lparr>URL = None, Name_config = None\<rparr>"

definition getConfigPath :: "os \<Rightarrow> error + string" where
  "getConfigPath sys =
     (case UserHomeDir sys of
        Inl m \<Rightarrow> Inl (ErrHomeDir m)
      | Inr homePath \<Rightarrow> Inr (Join sys homePath configFileName))"

definition Read :: "json \<Rightarrow> os \<Rightarrow> config \<times> error option" where
  "Read codec sys =
     (case getConfigPath sys of
        Inl err \<Rightarrow> (empty_config, Some (ErrGetPath err))
      | Inr configPath \<Rightarrow>
          (case files sys configPath of
             NoFile \<Rightarrow> (empty_config, None)
           | Unreadable m \<Rightarrow> (empty_config, Some (ErrOpenConfig m))
           | Contents data \<Rightarrow>
               (case snd (Decode codec data) of
                  Some m \<Rightarrow> (fst (Decode codec data), Some (ErrDecode m))
                | None \<Rightarrow> (fst (Decode codec data), None))))"

text \<open>
  The helper \<^verbatim>\<open>write\<close> (a keyword here, hence the longer name). A write that fails
  is taken to leave the file as it was.
\<close>

definition write_config :: "json \<Rightarrow> config \<Rightarrow> os \<Rightarrow> error option \<times> os" where
  "write_config codec cfg sys =
     (case getConfigPath sys of
        Inl err \<Rightarrow> (Some (ErrGetPath err), sys)
      | Inr configPath \<Rightarrow>
          (case MarshalIndent codec cfg of
             Inl m \<Rightarrow> (Some (ErrMarshal m), sys)
           | Inr jsonData \<Rightarrow>
               (case WriteFile_err sys configPath of
                  Some m \<Rightarrow> (Some (ErrWriteJson m), sys)
                | None \<Rightarrow> (None, sys\<lparr>files := (files sys)(configPath := Contents jsonData)\<rparr>))))"

definition SetUser :: "json \<Rightarrow> string \<Rightarrow> os \<Rightarrow> (config \<times> error option) \<times> os" where
  "SetUser codec userName sys =
     (case snd (Read codec sys) of
        Some err \<Rightarrow> ((empty_config, Some (ErrReadConfig err)), sys)
      | None \<Rightarrow>
          let cfg = (fst (Read codec sys))\<lparr>Name_config := Some userName\<rparr>;
              written = write_config codec cfg sys
          in (case fst written of
                Some err \<Rightarrow> ((cfg, Some (ErrWriteConfig err)), snd written)
              | None \<Rightarrow> ((cfg, None), snd written)))"

text \<open>
  A home directory holding a configuration file with a database URL and no user, and
  the two values of the JSON library that a login of \<^verbatim>\<open>lane\<close> needs there.
\<close>

definition config_before :: config where
  "config_before = \<lparr>URL = Some ''postgres://localhost:5432/gator'', Name_config = None\<rparr>"

definition json_before :: string where
  "json_before = ''{\"db_url\": \"postgres://localhost:5432/gator\", \"current_user_name\": null}''"

definition json_after :: string where
  "json_after = ''{\"db_url\": \"postgres://localhost:5432/gator\", \"current_user_name\": \"lane\"}''"

definition json_sample :: json where
  "json_sample =
     \<lparr>Decode = (\<lambda>data. if data = json_before then (config_before, None)
                       else (empty_config, Some ''invalid character'')),
      MarshalIndent = (\<lambda>cfg. if cfg = config_before\<lparr>Name_config := Some ''lane''\<rparr>
                              then Inr json_after else Inl ''unsupported value'')\<rparr>"

definition os_sample :: os where
  "os_sample =
     \<lparr>UserHomeDir = Inr ''/home/lane'',
      Join = (\<lambda>dir name. dir @ ''/'' @ name),
      files = (\<lambda>path. if path = ''/home/lane/.gatorconfig.json'' then Contents json_before
                       else NoFile),
      WriteFile_err = (\<lambda>path. None)\<rparr>"

section \<open>Posts (sql/schema/005_posts.sql, sql/queries/posts.sql)\<close>

record post =
  ID_post :: uuid
  CreatedAt_post :: timestamp
  UpdatedAt_post :: timestamp
  Title_post :: string
  Url_post :: string
  Description_post :: "string option"
  PublishedAt :: "timestamp option"
  FeedID :: uuid

text \<open>
  \<^verbatim>\<open>INSERT INTO posts ... RETURNING *\<close> under the constraints of the table: the primary
  key on \<^verbatim>\<open>id\<close>, \<^verbatim>\<open>UNIQUE\<close> on \<^verbatim>\<open>url\<close>, and the foreign key from \<^verbatim>\<open>feed_id\<close> to the
  feeds table. The query has no \<^verbatim>\<open>ON CONFLICT\<close> clause, so a row that breaks a
  constraint is an error of the insert and the table stays as it was.
\<close>

definition CreatePost :: "feed list \<Rightarrow> post \<Rightarrow> post list \<Rightarrow> error + post list" where
  "CreatePost feed_rows p rows =
     (if ID_post p \<in> ID_post ` set rows then Inl (ErrUnique ''posts_pkey'')
      else if Url_post p \<in> Url_post ` set rows then Inl (ErrUnique ''posts_url_key'')
      else if FeedID p \<notin> ID ` set feed_rows then Inl (ErrForeignKey ''posts_feed_id_fkey'')
      else Inr (rows @ [p]))"

section \<open>The post ingestor\<close>

text \<open>
  Modelled from the spec: the post ingestor (\<^verbatim>\<open>ingest(feed, parsed_feed)\<close>, section 4.3
  of the specification). The sources at hand hold the posts table, the \<^verbatim>\<open>CreatePost\<close>
  query and a \<^verbatim>\<open>scrapeFeeds\<close> that prints the titles of a fetched feed; the code that
  turns the items into posts is missing from them. As the specification has it: each
  item gives a candidate post keyed by its url; an item without title or url is skipped
  with a reason; the publication date is parsed with the known formats and stored as
  null when none applies; a uniqueness violation on insert means the post is already
  there and the item is skipped; any other failure of the insert skips that item only;
  the report counts inserted and skipped items. The parser of dates is a parameter.
  A new post gets an identifier that no stored post has, as a generated UUID does, and
  an empty description is stored as null (the specification leaves this open).
\<close>

datatype item_outcome = Inserted | Skipped_duplicate | Skipped_invalid | Skipped_error

record IngestReport =
  inserted :: nat
  skipped :: nat

text \<open>
  Modelled from the spec: the identifier of a new post ("opaque unique identifier"), one
  that no stored post has.
\<close>

definition fresh_uuid :: "post list \<Rightarrow> uuid" where
  "fresh_uuid rows = Suc (fold max (map ID_post rows) 0)"

text \<open>
  Modelled from the spec: the candidate post of an item, keyed by the item's url, with
  \<^verbatim>\<open>published_at\<close> null when the date does not parse.
\<close>

definition candidate_post ::
  "(string \<Rightarrow> timestamp option) \<Rightarrow> timestamp \<Rightarrow> uuid \<Rightarrow> feed \<Rightarrow> rss_item \<Rightarrow> post" where
  "candidate_post parse_date now new_id f item =
     \<lparr>ID_post = new_id, CreatedAt_post = now, UpdatedAt_post = now,
      Title_post = Title_item item, Url_post = Link_item item,
      Description_post = (if Description_item item = [] then None
                          else Some (Description_item item)),
      PublishedAt = parse_date (PubDate item), FeedID = ID f\<rparr>"

text \<open>
  Modelled from the spec: one item. Without title or url it is skipped; a uniqueness
  violation of the insert means it is already present; another error of the insert skips
  it too.
\<close>

definition ingest_item ::
  "(string \<Rightarrow> timestamp option) \<Rightarrow> timestamp \<Rightarrow> feed list \<Rightarrow> feed \<Rightarrow> rss_item \<Rightarrow> post list
     \<Rightarrow> item_outcome \<times> post list" where
  "ingest_item parse_date now feed_rows f item rows =
     (if Title_item item = [] \<or> Link_item item = [] then (Skipped_invalid, rows)
      else
        (case CreatePost feed_rows (candidate_post parse_date now (fresh_uuid rows) f item) rows of
           Inr rows' \<Rightarrow> (Inserted, rows')
         | Inl (ErrUnique c) \<Rightarrow> (Skipped_duplicate, rows)
         | Inl err \<Rightarrow> (Skipped_error, rows)))"

text \<open>Modelled from the spec: the report counts inserted and skipped items.\<close>

definition count_outcome :: "item_outcome \<Rightarrow> IngestReport \<Rightarrow> IngestReport" where
  "count_outcome out r =
     (if out = Inserted then r\<lparr>inserted := Suc (inserted r)\<rparr>
      else r\<lparr>skipped := Suc (skipped r)\<rparr>)"

text \<open>Modelled from the spec: the items in order, each on the posts the last one left.\<close>

fun ingest_items ::
  "(string \<Rightarrow> timestamp option) \<Rightarrow> timestamp \<Rightarrow> feed list \<Rightarrow> feed \<Rightarrow> rss_item list \<Rightarrow> post list
     \<Rightarrow> IngestReport \<times> post list" where
  "ingest_items parse_date now feed_rows f [] rows = (\<lparr>inserted = 0, skipped = 0\<rparr>, rows)"
| "ingest_items parse_date now feed_rows f (item # items) rows =
     (let step = ingest_item parse_date now feed_rows f item rows;
          rest = ingest_items parse_date now feed_rows f items (snd step)
      in (count_outcome (fst step) (fst rest), snd rest))"

text \<open>Modelled from the spec: \<^verbatim>\<open>ingest(feed, parsed_feed)\<close>.\<close>

definition ingest ::
  "(string \<Rightarrow> timestamp option) \<Rightarrow> timestamp \<Rightarrow> feed list \<Rightarrow> feed \<Rightarrow> rss_feed \<Rightarrow> post list
     \<Rightarrow> IngestReport \<times> post list" where
  "ingest parse_date now feed_rows f parsed rows =
     ingest_items parse_date now feed_rows f (Items (Channel parsed)) rows"

text \<open>
  A parser of dates that knows one RFC-1123 date and nothing else, a parsed feed with
  three items (the second repeats the url of the first, the third has a date that does
  not parse), and a post stored earlier from another feed.
\<close>

definition parse_date_sample :: "string \<Rightarrow> timestamp option" where
  "parse_date_sample s =
     (if s = ''Mon, 02 Jan 2006 15:04:05 GMT'' then Some 1136214245000000 else None)"

definition item_hello :: rss_item where
  "item_hello = \<lparr>Title_item = ''Hello'', Link_item = ''https://x/a'',
                  PubDate = ''Mon, 02 Jan 2006 15:04:05 GMT'', GUID = ''1'',
                  Description_item = ''body''\<rparr>"

definition item_again :: rss_item where
  "item_again = \<lparr>Title_item = ''Hello again'', Link_item = ''https://x/a'',
                  PubDate = ''Mon, 02 Jan 2006 15:04:05 GMT'', GUID = ''2'',
                  Description_item = ''''\<rparr>"

definition item_undated :: rss_item where
  "item_undated = \<lparr>Title_item = ''Undated'', Link_item = ''https://x/b'',
                    PubDate = ''yesterday'', GUID = ''3'', Description_item = ''text''\<rparr>"

definition parsed_sample :: rss_feed where
  "parsed_sample =
     \<lparr>Channel = \<lparr>Title = ''X'', Link = ''https://x'', Description = ''d'', Generator = '''',
                  Language = ''en'', LastBuildDate = '''',
                  Atom = \<lparr>Href = '''', Rel = '''', Type = ''''\<rparr>,
                  Items = [item_hello, item_again, item_undated]\<rparr>\<rparr>"

definition post_old :: post where
  "post_old = \<lparr>ID_post = 5, CreatedAt_post = 10, UpdatedAt_post = 10, Title_post = ''Old'',
                Url_post = ''https://y/old'', Description_post = None, PublishedAt = None,
                FeedID = 2\<rparr>"

section \<open>Selection of the next feed\<close>

lemma ORDER_BY_nonempty:
  assumes "ORDER_BY_last_fetched_at rows ordered" and "rows \<noteq> []"
  obtains f rest where "ordered = f # rest"
proof (cases ordered)
  case Nil
  with assms have "mset rows = {#}" by (simp add: ORDER_BY_last_fetched_at_def)
  with assms(2) show ?thesis by simp
next
  case (Cons f rest)
  then show ?thesis by (rule that)
qed

lemma ORDER_BY_head_least:
  assumes "ORDER_BY_last_fetched_at rows (f # rest)" and "g \<in> set rows"
  shows "LastFetchedAt f \<le> LastFetchedAt g"
proof -
  from assms(1) have m: "mset (f # rest) = mset rows" and s: "sorted (map LastFetchedAt (f # rest))"
    by (simp_all add: ORDER_BY_last_fetched_at_def)
  from m have "set (f # rest) = set rows" by (rule mset_eq_setD)
  with assms(2) have "g = f \<or> g \<in> set rest" by auto
  with s show ?thesis by auto
qed

lemma ORDER_BY_head_mem:
  assumes "ORDER_BY_last_fetched_at rows (f # rest)"
  shows "f \<in> set rows"
proof -
  from assms have "mset (f # rest) = mset rows" by (simp add: ORDER_BY_last_fetched_at_def)
  then have "set (f # rest) = set rows" by (rule mset_eq_setD)
  then show ?thesis by auto
qed

lemma GetNextFeedToFetch_Cons: "GetNextFeedToFetch (f # rest) = Inr f"
  by (simp add: GetNextFeedToFetch_def LIMIT_def one_def)

text \<open>
  Claim C1. On a non-empty feeds table the query returns a row of the table whose
  \<^verbatim>\<open>last_fetched_at\<close> is less than or equal to that of every row, NULL counting as
  earlier than any timestamp: if any feed was never fetched, the returned feed was never
  fetched, and otherwise its timestamp is at most every other timestamp.
\<close>

theorem GetNextFeedToFetch_earliest:
  assumes "ORDER_BY_last_fetched_at rows ordered" and "rows \<noteq> []"
  shows "\<exists>f. GetNextFeedToFetch ordered = Inr f \<and> f \<in> set rows
           \<and> (\<forall>g \<in> set rows. LastFetchedAt f \<le> LastFetchedAt g)
           \<and> ((\<exists>g \<in> set rows. LastFetchedAt g = None) \<longrightarrow> LastFetchedAt f = None)
           \<and> (\<forall>t. LastFetchedAt f = Some t \<longrightarrow>
                 (\<forall>g \<in> set rows. \<exists>u. LastFetchedAt g = Some u \<and> t \<le> u))"
proof -
  from assms obtain f rest where o: "ordered = f # rest" by (rule ORDER_BY_nonempty)
  have least: "LastFetchedAt f \<le> LastFetchedAt g" if "g \<in> set rows" for g
    using assms(1) that unfolding o by (rule ORDER_BY_head_least)
  have never: "LastFetchedAt f = None" if "g \<in> set rows" "LastFetchedAt g = None" for g
    using least [OF that(1)] that(2) by (cases "LastFetchedAt f") simp_all
  have fetched: "\<exists>u. LastFetchedAt g = Some u \<and> t \<le> u"
    if "LastFetchedAt f = Some t" "g \<in> set rows" for t g
    using least [OF that(2)] that(1) by (cases "LastFetchedAt g") simp_all
  have "f \<in> set rows" using assms(1) unfolding o by (rule ORDER_BY_head_mem)
  with least never fetched show ?thesis
    unfolding o GetNextFeedToFetch_Cons by blast
qed

theorem GetNextFeedToFetch_earliest_witness:
  "ORDER_BY_last_fetched_at [feed_B, feed_A] [feed_A, feed_B] \<and> [feed_B, feed_A] \<noteq> []
   \<and> LastFetchedAt feed_A = None
   \<and> (\<exists>f. GetNextFeedToFetch [feed_A, feed_B] = Inr f \<and> f \<in> set [feed_B, feed_A]
           \<and> (\<forall>g \<in> set [feed_B, feed_A]. LastFetchedAt f \<le> LastFetchedAt g)
           \<and> ((\<exists>g \<in> set [feed_B, feed_A]. LastFetchedAt g = None) \<longrightarrow> LastFetchedAt f = None)
           \<and> (\<forall>t. LastFetchedAt f = Some t \<longrightarrow>
                 (\<forall>g \<in> set [feed_B, feed_A]. \<exists>u. LastFetchedAt g = Some u \<and> t \<le> u)))
   \<and> ORDER_BY_last_fetched_at [feed_D, feed_B] [feed_B, feed_D] \<and> [feed_D, feed_B] \<noteq> []
   \<and> GetNextFeedToFetch [feed_B, feed_D] = Inr feed_B
   \<and> LastFetchedAt feed_B = Some 400
   \<and> (\<exists>f. GetNextFeedToFetch [feed_B, feed_D] = Inr f \<and> f \<in> set [feed_D, feed_B]
           \<and> (\<forall>g \<in> set [feed_D, feed_B]. LastFetchedAt f \<le> LastFetchedAt g)
           \<and> ((\<exists>g \<in> set [feed_D, feed_B]. LastFetchedAt g = None) \<longrightarrow> LastFetchedAt f = None)
           \<and> (\<forall>t. LastFetchedAt f = Some t \<longrightarrow>
                 (\<forall>g \<in> set [feed_D, feed_B]. \<exists>u. LastFetchedAt g = Some u \<and> t \<le> u)))"
proof -
  have h1: "ORDER_BY_last_fetched_at [feed_B, feed_A] [feed_A, feed_B]"
    by (simp add: ORDER_BY_last_fetched_at_def feed_A_def feed_B_def)
  have h2: "[feed_B, feed_A] \<noteq> []" by simp
  have h3: "LastFetchedAt feed_A = None" by (simp add: feed_A_def)
  have k1: "ORDER_BY_last_fetched_at [feed_D, feed_B] [feed_B, feed_D]"
    by (simp add: ORDER_BY_last_fetched_at_def feed_D_def feed_B_def)
  have k2: "[feed_D, feed_B] \<noteq> []" by simp
  have k3: "GetNextFeedToFetch [feed_B, feed_D] = Inr feed_B" by (rule GetNextFeedToFetch_Cons)
  have k4: "LastFetchedAt feed_B = Some 400" by (simp add: feed_B_def)
  show ?thesis
    by (rule conjI [OF h1 conjI [OF h2 conjI [OF h3
          conjI [OF GetNextFeedToFetch_earliest [OF h1 h2]
          conjI [OF k1 conjI [OF k2 conjI [OF k3 conjI [OF k4
          GetNextFeedToFetch_earliest [OF k1 k2]]]]]]]]])
qed

text \<open>
  Claim C6, as amended. A call on a non-empty table returns exactly one feed, and any two
  answers to the query on the same table carry the same \<^verbatim>\<open>last_fetched_at\<close>. They
  are the same feed when no other row of the table shares that earliest value; among rows
  tied for earliest the query has no second sort key, and which of them comes back is left
  to the database engine.
\<close>

theorem GetNextFeedToFetch_unique_when_untied:
  assumes "ORDER_BY_last_fetched_at rows ordered1" and "ORDER_BY_last_fetched_at rows ordered2"
    and "rows \<noteq> []"
  shows "\<exists>f1 f2. GetNextFeedToFetch ordered1 = Inr f1 \<and> GetNextFeedToFetch ordered2 = Inr f2
           \<and> LastFetchedAt f1 = LastFetchedAt f2
           \<and> ((\<forall>g \<in> set rows. LastFetchedAt g = LastFetchedAt f1 \<longrightarrow> g = f1) \<longrightarrow> f1 = f2)"
proof -
  from assms(1,3) obtain f1 r1 where o1: "ordered1 = f1 # r1" by (rule ORDER_BY_nonempty)
  from assms(2,3) obtain f2 r2 where o2: "ordered2 = f2 # r2" by (rule ORDER_BY_nonempty)
  have m1: "f1 \<in> set rows" using assms(1) unfolding o1 by (rule ORDER_BY_head_mem)
  have m2: "f2 \<in> set rows" using assms(2) unfolding o2 by (rule ORDER_BY_head_mem)
  have "LastFetchedAt f1 \<le> LastFetchedAt f2"
    using assms(1) m2 unfolding o1 by (rule ORDER_BY_head_least)
  moreover have "LastFetchedAt f2 \<le> LastFetchedAt f1"
    using assms(2) m1 unfolding o2 by (rule ORDER_BY_head_least)
  ultimately have eq: "LastFetchedAt f1 = LastFetchedAt f2" by (rule order_antisym)
  with m2 have "(\<forall>g \<in> set rows. LastFetchedAt g = LastFetchedAt f1 \<longrightarrow> g = f1) \<longrightarrow> f1 = f2"
    by auto
  with eq show ?thesis unfolding o1 o2 GetNextFeedToFetch_Cons by blast
qed

theorem GetNextFeedToFetch_unique_when_untied_witness:
  "ORDER_BY_last_fetched_at [feed_B, feed_D, feed_A] [feed_A, feed_B, feed_D]
   \<and> ORDER_BY_last_fetched_at [feed_B, feed_D, feed_A] [feed_A, feed_D, feed_B]
   \<and> [feed_B, feed_D, feed_A] \<noteq> []
   \<and> LastFetchedAt feed_B \<noteq> LastFetchedAt feed_A
   \<and> LastFetchedAt feed_D \<noteq> LastFetchedAt feed_A
   \<and> (\<exists>f1 f2. GetNextFeedToFetch [feed_A, feed_B, feed_D] = Inr f1
         \<and> GetNextFeedToFetch [feed_A, feed_D, feed_B] = Inr f2
         \<and> LastFetchedAt f1 = LastFetchedAt f2
         \<and> f1 = f2)"
proof -
  have h1: "ORDER_BY_last_fetched_at [feed_B, feed_D, feed_A] [feed_A, feed_B, feed_D]"
    by (simp add: ORDER_BY_last_fetched_at_def feed_A_def feed_B_def feed_D_def)
  have h2: "ORDER_BY_last_fetched_at [feed_B, feed_D, feed_A] [feed_A, feed_D, feed_B]"
    by (simp add: ORDER_BY_last_fetched_at_def feed_A_def feed_B_def feed_D_def)
  have h3: "[feed_B, feed_D, feed_A] \<noteq> []" by simp
  have h4: "LastFetchedAt feed_B \<noteq> LastFetchedAt feed_A" by (simp add: feed_A_def feed_B_def)
  have h5: "LastFetchedAt feed_D \<noteq> LastFetchedAt feed_A" by (simp add: feed_A_def feed_D_def)
  from GetNextFeedToFetch_unique_when_untied [OF h1 h2 h3]
  obtain f1 f2 where r1: "GetNextFeedToFetch [feed_A, feed_B, feed_D] = Inr f1"
    and r2: "GetNextFeedToFetch [feed_A, feed_D, feed_B] = Inr f2"
    and eq: "LastFetchedAt f1 = LastFetchedAt f2"
    and same: "(\<forall>g \<in> set [feed_B, feed_D, feed_A]. LastFetchedAt g = LastFetchedAt f1 \<longrightarrow> g = f1)
                 \<longrightarrow> f1 = f2"
    by (elim exE conjE)
  from r1 have f1: "f1 = feed_A" by (simp add: GetNextFeedToFetch_Cons)
  from h4 h5 have "\<forall>g \<in> set [feed_B, feed_D, feed_A]. LastFetchedAt g = LastFetchedAt f1 \<longrightarrow> g = f1"
    unfolding f1 by simp
  with same have "f1 = f2" ..
  with r1 r2 eq have "GetNextFeedToFetch [feed_A, feed_B, feed_D] = Inr f1
         \<and> GetNextFeedToFetch [feed_A, feed_D, feed_B] = Inr f2
         \<and> LastFetchedAt f1 = LastFetchedAt f2 \<and> f1 = f2"
    by (intro conjI)
  then have "\<exists>f1 f2. GetNextFeedToFetch [feed_A, feed_B, feed_D] = Inr f1
         \<and> GetNextFeedToFetch [feed_A, feed_D, feed_B] = Inr f2
         \<and> LastFetchedAt f1 = LastFetchedAt f2 \<and> f1 = f2"
    by (intro exI)
  with h1 h2 h3 h4 h5 show ?thesis by (intro conjI)
qed

text \<open>
  The claim as stated fails on two feeds that were never fetched: both orders of the two
  rows answer the query, and they return different feeds.
\<close>

theorem GetNextFeedToFetch_tie_counterexample:
  "ORDER_BY_last_fetched_at [feed_A, feed_C] [feed_A, feed_C]
   \<and> ORDER_BY_last_fetched_at [feed_A, feed_C] [feed_C, feed_A]
   \<and> LastFetchedAt feed_A = LastFetchedAt feed_C
   \<and> GetNextFeedToFetch [feed_A, feed_C] = Inr feed_A
   \<and> GetNextFeedToFetch [feed_C, feed_A] = Inr feed_C
   \<and> feed_A \<noteq> feed_C"
  by (simp add: ORDER_BY_last_fetched_at_def GetNextFeedToFetch_Cons feed_A_def feed_C_def)

section \<open>One scrape cycle\<close>

lemma trace_emit: "trace (emit evs w) = trace w @ evs"
  by (simp add: emit_def)

lemma feeds_emit: "feeds (emit evs w) = feeds w"
  by (simp add: emit_def)

lemma emit_emit: "emit ys (emit xs w) = emit (xs @ ys) w"
  by (simp add: emit_def)

lemma validation_warnings_Println: "ev \<in> set (validation_warnings feed) \<Longrightarrow> \<exists>m. ev = Println m"
  by (auto simp: validation_warnings_def split: if_splits)

lemma FetchFeed_events:
  assumes "ev \<in> set (snd (FetchFeed e feedURL))"
  shows "ev = HTTP_GET feedURL \<or> (\<exists>m. ev = Println m)"
  using assms
  by (auto simp: FetchFeed_def split: if_splits option.splits sum.splits
           dest: validation_warnings_Println)

lemma feed_report_Println: "ev \<in> set (feed_report feedName feed) \<Longrightarrow> \<exists>m. ev = Println m"
  by (auto simp: feed_report_def)

text \<open>The three ways a cycle goes once a feed has been selected.\<close>

lemma scrapeFeeds_mark_failed:
  assumes "queries_GetNextFeedToFetch e (feeds w) = Inr f" and "mark_fault e = Some m"
  shows "scrapeFeeds e (Some q) w =
           (Some (ErrMarkFetched (ErrDriver m)),
            emit [Query_GetNextFeedToFetch, Exec_MarkFeedFetched (ID f)] w)"
  using assms by (simp add: scrapeFeeds_def queries_MarkFeedFetched_def Let_def emit_emit)

lemma scrapeFeeds_fetch_failed:
  assumes "queries_GetNextFeedToFetch e (feeds w) = Inr f" and "mark_fault e = None"
    and "fst (FetchFeed e (Url f)) = Inl err"
  shows "scrapeFeeds e (Some q) w =
           (Some (ErrFetchMarked (Name f) err),
            emit ([Query_GetNextFeedToFetch, Exec_MarkFeedFetched (ID f),
                   Println (FetchingFeed (Name f) (Url f))] @ snd (FetchFeed e (Url f)))
              (w\<lparr>feeds := MarkFeedFetched (NOW e) (ID f) (feeds w)\<rparr>))"
  using assms by (simp add: scrapeFeeds_def queries_MarkFeedFetched_def Let_def emit_def)

lemma scrapeFeeds_fetched:
  assumes "queries_GetNextFeedToFetch e (feeds w) = Inr f" and "mark_fault e = None"
    and "fst (FetchFeed e (Url f)) = Inr feed"
  shows "scrapeFeeds e (Some q) w =
           (None,
            emit ([Query_GetNextFeedToFetch, Exec_MarkFeedFetched (ID f),
                   Println (FetchingFeed (Name f) (Url f))] @ snd (FetchFeed e (Url f))
                  @ feed_report (Name f) feed)
              (w\<lparr>feeds := MarkFeedFetched (NOW e) (ID f) (feeds w)\<rparr>))"
  using assms by (simp add: scrapeFeeds_def queries_MarkFeedFetched_def Let_def emit_def)

lemma MarkFeedFetched_stamps:
  assumes "g \<in> set (MarkFeedFetched now fid rows)" and "ID g = fid"
  shows "LastFetchedAt g = Some now \<and> UpdatedAt g = now"
proof -
  from assms(1) obtain x
    where g: "g = (if ID x = fid then x\<lparr>UpdatedAt := now, LastFetchedAt := Some now\<rparr> else x)"
    unfolding MarkFeedFetched_def set_map by (rule imageE)
  show ?thesis
  proof (cases "ID x = fid")
    case True
    with g show ?thesis by simp
  next
    case False
    with g have "g = x" by simp
    with False assms(2) show ?thesis by simp
  qed
qed
lemma MarkFeedFetched_row:
  assumes "f \<in> set rows"
  shows "f\<lparr>UpdatedAt := now, LastFetchedAt := Some now\<rparr> \<in> set (MarkFeedFetched now (ID f) rows)"
proof -
  let ?stamp = "\<lambda>g. if ID g = ID f then g\<lparr>UpdatedAt := now, LastFetchedAt := Some now\<rparr> else g"
  from assms have "?stamp f \<in> ?stamp ` set rows" by (rule imageI)
  then show ?thesis by (simp add: MarkFeedFetched_def)
qed

text \<open>
  Claim C2. In a cycle in which a feed is selected, the call of \<^verbatim>\<open>MarkFeedFetched\<close> on
  that feed comes right after the selection and before anything else of the cycle; a GET
  is sent only after it, only to the selected feed's URL, and only if the update went
  through. When the update goes through, the table at the end of the cycle is the table
  with that feed's \<^verbatim>\<open>last_fetched_at\<close> and \<^verbatim>\<open>updated_at\<close> set to \<^verbatim>\<open>NOW()\<close>, whatever
  the fetch does: a failing fetch or parse makes the cycle return the error and leaves
  the feed stamped.
\<close>

theorem scrapeFeeds_marks_before_fetch:
  assumes "queries_GetNextFeedToFetch e (feeds w) = Inr f"
  shows "\<exists>post. trace (snd (scrapeFeeds e (Some q) w))
             = trace w @ [Query_GetNextFeedToFetch, Exec_MarkFeedFetched (ID f)] @ post
     \<and> (\<forall>u. HTTP_GET u \<in> set post \<longrightarrow> u = Url f \<and> mark_fault e = None)
     \<and> (mark_fault e = None \<longrightarrow>
          feeds (snd (scrapeFeeds e (Some q) w)) = MarkFeedFetched (NOW e) (ID f) (feeds w)
          \<and> (\<forall>g \<in> set (feeds (snd (scrapeFeeds e (Some q) w))).
                ID g = ID f \<longrightarrow> LastFetchedAt g = Some (NOW e) \<and> UpdatedAt g = NOW e)
          \<and> (f \<in> set (feeds w) \<longrightarrow>
                f\<lparr>UpdatedAt := NOW e, LastFetchedAt := Some (NOW e)\<rparr>
                  \<in> set (feeds (snd (scrapeFeeds e (Some q) w))))
          \<and> (\<forall>err. fst (FetchFeed e (Url f)) = Inl err \<longrightarrow>
                fst (scrapeFeeds e (Some q) w) = Some (ErrFetchMarked (Name f) err)))"
proof (cases "mark_fault e")
  case (Some m)
  from scrapeFeeds_mark_failed [OF assms Some, of q]
  have "trace (snd (scrapeFeeds e (Some q) w))
          = trace w @ [Query_GetNextFeedToFetch, Exec_MarkFeedFetched (ID f)] @ []"
    by (simp add: trace_emit)
  with Some show ?thesis by (intro exI [of _ "[]"]) simp
next
  case None
  let ?rows = "MarkFeedFetched (NOW e) (ID f) (feeds w)"
  let ?w' = "snd (scrapeFeeds e (Some q) w)"
  have "\<exists>tail. scrapeFeeds e (Some q) w =
          (case fst (FetchFeed e (Url f)) of
             Inl err \<Rightarrow> Some (ErrFetchMarked (Name f) err) | Inr feed \<Rightarrow> None,
           emit ([Query_GetNextFeedToFetch, Exec_MarkFeedFetched (ID f),
                  Println (FetchingFeed (Name f) (Url f))] @ snd (FetchFeed e (Url f)) @ tail)
             (w\<lparr>feeds := ?rows\<rparr>))
        \<and> (\<forall>ev \<in> set tail. \<exists>m. ev = Println m)"
  proof (cases "fst (FetchFeed e (Url f))")
    case (Inl err)
    from scrapeFeeds_fetch_failed [OF assms None Inl, of q] Inl
    show ?thesis by (intro exI [of _ "[]"]) simp
  next
    case (Inr feed)
    from scrapeFeeds_fetched [OF assms None Inr, of q] Inr
    show ?thesis
      by (intro exI [of _ "feed_report (Name f) feed"]) (auto dest: feed_report_Println)
  qed
  then obtain tail where run: "scrapeFeeds e (Some q) w =
          (case fst (FetchFeed e (Url f)) of
             Inl err \<Rightarrow> Some (ErrFetchMarked (Name f) err) | Inr feed \<Rightarrow> None,
           emit ([Query_GetNextFeedToFetch, Exec_MarkFeedFetched (ID f),
                  Println (FetchingFeed (Name f) (Url f))] @ snd (FetchFeed e (Url f)) @ tail)
             (w\<lparr>feeds := ?rows\<rparr>))"
    and tail: "\<forall>ev \<in> set tail. \<exists>m. ev = Println m"
    by blast
  let ?post = "Println (FetchingFeed (Name f) (Url f)) # snd (FetchFeed e (Url f)) @ tail"
  have tr: "trace ?w' = trace w @ [Query_GetNextFeedToFetch, Exec_MarkFeedFetched (ID f)] @ ?post"
    by (simp add: run trace_emit)
  have get: "u = Url f" if "HTTP_GET u \<in> set ?post" for u
  proof -
    from that tail have "HTTP_GET u \<in> set (snd (FetchFeed e (Url f)))" by auto
    from FetchFeed_events [OF this] show ?thesis by simp
  qed
  have rows: "feeds ?w' = ?rows"
    by (simp add: run feeds_emit)
  have stamped: "\<forall>g \<in> set (feeds ?w'). ID g = ID f \<longrightarrow>
                   LastFetchedAt g = Some (NOW e) \<and> UpdatedAt g = NOW e"
  proof (intro ballI impI)
    fix g
    assume "g \<in> set (feeds ?w')" and "ID g = ID f"
    then show "LastFetchedAt g = Some (NOW e) \<and> UpdatedAt g = NOW e"
      unfolding rows by (rule MarkFeedFetched_stamps)
  qed
  have row: "f \<in> set (feeds w) \<longrightarrow>
               f\<lparr>UpdatedAt := NOW e, LastFetchedAt := Some (NOW e)\<rparr> \<in> set (feeds ?w')"
    unfolding rows by (intro impI) (rule MarkFeedFetched_row)
  have failed: "\<forall>err. fst (FetchFeed e (Url f)) = Inl err \<longrightarrow>
                  fst (scrapeFeeds e (Some q) w) = Some (ErrFetchMarked (Name f) err)"
    by (simp add: run)
  have gets: "\<forall>u. HTTP_GET u \<in> set ?post \<longrightarrow> u = Url f \<and> mark_fault e = None"
  proof (intro allI impI conjI)
    fix u
    assume "HTTP_GET u \<in> set ?post"
    then show "u = Url f" by (rule get)
  next
    show "mark_fault e = None" by (rule None)
  qed
  have marked: "mark_fault e = None \<longrightarrow>
          feeds ?w' = ?rows
          \<and> (\<forall>g \<in> set (feeds ?w').
                ID g = ID f \<longrightarrow> LastFetchedAt g = Some (NOW e) \<and> UpdatedAt g = NOW e)
          \<and> (f \<in> set (feeds w) \<longrightarrow>
                f\<lparr>UpdatedAt := NOW e, LastFetchedAt := Some (NOW e)\<rparr> \<in> set (feeds ?w'))
          \<and> (\<forall>err. fst (FetchFeed e (Url f)) = Inl err \<longrightarrow>
                fst (scrapeFeeds e (Some q) w) = Some (ErrFetchMarked (Name f) err))"
    by (rule impI) (rule conjI [OF rows conjI [OF stamped conjI [OF row failed]]])
  show ?thesis
  proof (intro exI conjI)
    show "trace ?w' = trace w @ [Query_GetNextFeedToFetch, Exec_MarkFeedFetched (ID f)] @ ?post"
      by (rule tr)
    show "\<forall>u. HTTP_GET u \<in> set ?post \<longrightarrow> u = Url f \<and> mark_fault e = None"
      by (rule gets)
    show "mark_fault e = None \<longrightarrow>
          feeds ?w' = ?rows
          \<and> (\<forall>g \<in> set (feeds ?w').
                ID g = ID f \<longrightarrow> LastFetchedAt g = Some (NOW e) \<and> UpdatedAt g = NOW e)
          \<and> (f \<in> set (feeds w) \<longrightarrow>
                f\<lparr>UpdatedAt := NOW e, LastFetchedAt := Some (NOW e)\<rparr> \<in> set (feeds ?w'))
          \<and> (\<forall>err. fst (FetchFeed e (Url f)) = Inl err \<longrightarrow>
                fst (scrapeFeeds e (Some q) w) = Some (ErrFetchMarked (Name f) err))"
      by (rule marked)
  qed
qed

theorem scrapeFeeds_marks_before_fetch_witness:
  "queries_GetNextFeedToFetch env_500 (feeds world_AB) = Inr feed_A
   \<and> mark_fault env_500 = None
   \<and> feed_A \<in> set (feeds world_AB)
   \<and> fst (FetchFeed env_500 (Url feed_A)) = Inl (ErrStatus ''500 Internal Server Error'')
   \<and> feeds (snd (scrapeFeeds env_500 (Some Queries) world_AB))
       = MarkFeedFetched (NOW env_500) (ID feed_A) (feeds world_AB)
   \<and> feed_A\<lparr>UpdatedAt := NOW env_500, LastFetchedAt := Some (NOW env_500)\<rparr>
       \<in> set (feeds (snd (scrapeFeeds env_500 (Some Queries) world_AB)))
   \<and> fst (scrapeFeeds env_500 (Some Queries) world_AB)
       = Some (ErrFetchMarked (Name feed_A) (ErrStatus ''500 Internal Server Error''))"
proof -
  have h1: "queries_GetNextFeedToFetch env_500 (feeds world_AB) = Inr feed_A"
    by (simp add: queries_GetNextFeedToFetch_def env_500_def world_AB_def
        GetNextFeedToFetch_Cons feed_A_def feed_B_def)
  have h2: "mark_fault env_500 = None" by (simp add: env_500_def)
  have h3: "feed_A \<in> set (feeds world_AB)" by (simp add: world_AB_def)
  have h4: "fst (FetchFeed env_500 (Url feed_A)) = Inl (ErrStatus ''500 Internal Server Error'')"
    by (simp add: FetchFeed_def env_500_def response_500_def feed_A_def)
  from scrapeFeeds_marks_before_fetch [OF h1, of Queries] h2 h3 h4
  have "feeds (snd (scrapeFeeds env_500 (Some Queries) world_AB))
          = MarkFeedFetched (NOW env_500) (ID feed_A) (feeds world_AB)
        \<and> feed_A\<lparr>UpdatedAt := NOW env_500, LastFetchedAt := Some (NOW env_500)\<rparr>
            \<in> set (feeds (snd (scrapeFeeds env_500 (Some Queries) world_AB)))
        \<and> fst (scrapeFeeds env_500 (Some Queries) world_AB)
            = Some (ErrFetchMarked (Name feed_A) (ErrStatus ''500 Internal Server Error''))"
    by blast
  with h1 h2 h3 h4 show ?thesis by blast
qed

section \<open>The loop of the agg command\<close>

lemma scrapeFeeds_nil: "scrapeFeeds e None w = (Some ErrQueriesNil, w)"
  by (simp add: scrapeFeeds_def)

lemma scrapeFeeds_no_rows:
  assumes "queries_GetNextFeedToFetch e (feeds w) = Inl ErrNoRows"
  shows "scrapeFeeds e (Some q) w = (None, emit [Query_GetNextFeedToFetch, Println NoFeedsFound] w)"
  using assms by (simp add: scrapeFeeds_def Let_def emit_emit)

lemma scrapeFeeds_select_failed:
  assumes "queries_GetNextFeedToFetch e (feeds w) = Inl err" and "err \<noteq> ErrNoRows"
  shows "scrapeFeeds e (Some q) w = (Some (ErrGetNextFeed err), emit [Query_GetNextFeedToFetch] w)"
  using assms by (simp add: scrapeFeeds_def Let_def)

lemma scrapeFeeds_selected_events:
  assumes "queries_GetNextFeedToFetch e (feeds w) = Inr f"
  shows "\<exists>post. trace (snd (scrapeFeeds e (Some q) w))
             = trace w @ [Query_GetNextFeedToFetch, Exec_MarkFeedFetched (ID f)] @ post
           \<and> (\<forall>ev \<in> set post. ev = HTTP_GET (Url f) \<or> (\<exists>m. ev = Println m))"
proof (cases "mark_fault e")
  case (Some m)
  from scrapeFeeds_mark_failed [OF assms Some, of q]
  have "trace (snd (scrapeFeeds e (Some q) w))
          = trace w @ [Query_GetNextFeedToFetch, Exec_MarkFeedFetched (ID f)] @ []"
    by (simp add: trace_emit)
  then show ?thesis by (intro exI [of _ "[]"]) simp
next
  case None
  let ?got = "Println (FetchingFeed (Name f) (Url f)) # snd (FetchFeed e (Url f))"
  have got: "\<forall>ev \<in> set ?got. ev = HTTP_GET (Url f) \<or> (\<exists>m. ev = Println m)"
    by (auto dest: FetchFeed_events)
  show ?thesis
  proof (cases "fst (FetchFeed e (Url f))")
    case (Inl err)
    from scrapeFeeds_fetch_failed [OF assms None Inl, of q]
    have "trace (snd (scrapeFeeds e (Some q) w))
            = trace w @ [Query_GetNextFeedToFetch, Exec_MarkFeedFetched (ID f)] @ ?got"
      by (simp add: trace_emit)
    with got show ?thesis by blast
  next
    case (Inr feed)
    let ?all = "?got @ feed_report (Name f) feed"
    from scrapeFeeds_fetched [OF assms None Inr, of q]
    have "trace (snd (scrapeFeeds e (Some q) w))
            = trace w @ [Query_GetNextFeedToFetch, Exec_MarkFeedFetched (ID f)] @ ?all"
      by (simp add: trace_emit)
    moreover from got have "\<forall>ev \<in> set ?all. ev = HTTP_GET (Url f) \<or> (\<exists>m. ev = Println m)"
      by (auto dest: feed_report_Println)
    ultimately show ?thesis by blast
  qed
qed

text \<open>With a database handle, every cycle starts with the selection query.\<close>

lemma scrapeFeeds_trace:
  "\<exists>evs. trace (snd (scrapeFeeds e (Some q) w)) = trace w @ Query_GetNextFeedToFetch # evs
         \<and> TickerWait \<notin> set evs"
proof (cases "queries_GetNextFeedToFetch e (feeds w)")
  case (Inl err)
  show ?thesis
  proof (cases "err = ErrNoRows")
    case True
    with Inl have "scrapeFeeds e (Some q) w
        = (None, emit [Query_GetNextFeedToFetch, Println NoFeedsFound] w)"
      by (simp add: scrapeFeeds_no_rows)
    then show ?thesis by (simp add: trace_emit)
  next
    case False
    with Inl have "scrapeFeeds e (Some q) w
        = (Some (ErrGetNextFeed err), emit [Query_GetNextFeedToFetch] w)"
      by (simp add: scrapeFeeds_select_failed)
    then show ?thesis by (simp add: trace_emit)
  qed
next
  case (Inr f)
  from scrapeFeeds_selected_events [OF Inr, of q]
  obtain post where tr: "trace (snd (scrapeFeeds e (Some q) w))
      = trace w @ [Query_GetNextFeedToFetch, Exec_MarkFeedFetched (ID f)] @ post"
    and post: "\<forall>ev \<in> set post. ev = HTTP_GET (Url f) \<or> (\<exists>m. ev = Println m)"
    by blast
  from post have "TickerWait \<notin> set (Exec_MarkFeedFetched (ID f) # post)" by auto
  with tr show ?thesis by simp
qed

lemma report_error_trace:
  "\<exists>evs. trace (report_error (scrapeFeeds e qs w)) = trace w @ evs \<and> TickerWait \<notin> set evs
         \<and> (\<forall>q. qs = Some q \<longrightarrow> (\<exists>rest. evs = Query_GetNextFeedToFetch # rest))"
proof (cases qs)
  case None
  then show ?thesis by (simp add: scrapeFeeds_nil report_error_def trace_emit)
next
  case (Some q)
  from scrapeFeeds_trace [of e q w] obtain evs
    where tr: "trace (snd (scrapeFeeds e (Some q) w)) = trace w @ Query_GetNextFeedToFetch # evs"
      and no: "TickerWait \<notin> set evs"
    by blast
  show ?thesis
  proof (cases "fst (scrapeFeeds e (Some q) w)")
    case None
    with tr no Some show ?thesis by (simp add: report_error_def)
  next
    case (Some err)
    with tr no \<open>qs = Some q\<close> show ?thesis by (simp add: report_error_def trace_emit)
  qed
qed

lemma agg_iteration_waits:
  "count_list (trace (agg_iteration e qs w)) TickerWait = Suc (count_list (trace w) TickerWait)"
proof -
  from report_error_trace [of e qs w] obtain evs
    where "trace (report_error (scrapeFeeds e qs w)) = trace w @ evs" and "TickerWait \<notin> set evs"
    by (elim exE conjE)
  then show ?thesis by (simp add: agg_iteration_def trace_emit)
qed

text \<open>A cycle whose fetch fails: the error is printed after the events of the fetch, then the wait.\<close>

lemma agg_iteration_fetch_failed:
  assumes "queries_GetNextFeedToFetch e (feeds w) = Inr f" and "mark_fault e = None"
    and "fst (FetchFeed e (Url f)) = Inl err"
  shows "agg_iteration e (Some q) w =
           emit ([Query_GetNextFeedToFetch, Exec_MarkFeedFetched (ID f),
                  Println (FetchingFeed (Name f) (Url f))] @ snd (FetchFeed e (Url f))
                 @ [Println (ErrorScraping (ErrFetchMarked (Name f) err)), TickerWait])
             (w\<lparr>feeds := MarkFeedFetched (NOW e) (ID f) (feeds w)\<rparr>)"
proof -
  have "scrapeFeeds e (Some q) w =
           (Some (ErrFetchMarked (Name f) err),
            emit ([Query_GetNextFeedToFetch, Exec_MarkFeedFetched (ID f),
                   Println (FetchingFeed (Name f) (Url f))] @ snd (FetchFeed e (Url f)))
              (w\<lparr>feeds := MarkFeedFetched (NOW e) (ID f) (feeds w)\<rparr>))"
    using assms by (rule scrapeFeeds_fetch_failed)
  then show ?thesis by (simp add: agg_iteration_def report_error_def emit_emit)
qed

text \<open>The run after one more iteration is the run so far followed by the loop body.\<close>

lemma agg_loop_Suc:
  "agg_loop envs qs k (Suc n) w
     = (Running, agg_iteration (envs (k + n)) qs (snd (agg_loop envs qs k n w)))"
proof (induction n arbitrary: k w)
  case 0
  show ?case by simp
next
  case (Suc n)
  have "agg_loop envs qs k (Suc (Suc n)) w
          = agg_loop envs qs (Suc k) (Suc n) (agg_iteration (envs k) qs w)"
    by simp
  also have "\<dots> = (Running, agg_iteration (envs (Suc k + n)) qs
                     (snd (agg_loop envs qs (Suc k) n (agg_iteration (envs k) qs w))))"
    by (rule Suc.IH)
  finally show ?case by simp
qed

lemma agg_loop_Running: "fst (agg_loop envs qs k n w) = Running"
  by (induction n arbitrary: k w) simp_all

lemma agg_loop_waits:
  "count_list (trace (snd (agg_loop envs qs k n w))) TickerWait
     = count_list (trace w) TickerWait + n"
proof (induction n)
  case 0
  show ?case by simp
next
  case (Suc n)
  then show ?case unfolding agg_loop_Suc by (simp add: agg_iteration_waits)
qed

lemma HandlerAgg_startup_ok:
  assumes "Args cmd \<noteq> []" and "ParseDuration (Args cmd ! 0) = Inr d" and "0 < d"
  shows "HandlerAgg_startup ParseDuration (Some st) cmd w
           = Inr (DB st, emit [Println (CollectingEvery d)] w)"
  using assms by (simp add: HandlerAgg_startup_def)

lemma HandlerAgg_startup_invalid:
  assumes "Args cmd \<noteq> []" and "ParseDuration (Args cmd ! 0) = Inl m"
  shows "HandlerAgg_startup ParseDuration (Some st) cmd w
           = Inl (Returned (Some (ErrInvalidDuration m)), w)"
  using assms by (simp add: HandlerAgg_startup_def)

text \<open>With a positive interval, \<^verbatim>\<open>HandlerAgg\<close> is its loop, entered after the first line.\<close>

lemma HandlerAgg_in_loop:
  assumes "Args cmd \<noteq> []" and "ParseDuration (Args cmd ! 0) = Inr d" and "0 < d"
  shows "HandlerAgg ParseDuration envs (Some st) cmd w n
           = agg_loop envs (DB st) 0 n (emit [Println (CollectingEvery d)] w)"
  using assms by (simp add: HandlerAgg_def HandlerAgg_startup_def)

lemma HandlerAgg_next:
  assumes "Args cmd \<noteq> []" and "ParseDuration (Args cmd ! 0) = Inr d" and "0 < d"
  shows "HandlerAgg ParseDuration envs (Some st) cmd w (Suc n)
           = (Running, agg_iteration (envs n) (DB st)
                         (snd (HandlerAgg ParseDuration envs (Some st) cmd w n)))"
  unfolding HandlerAgg_in_loop [where ParseDuration = ParseDuration and cmd = cmd, OF assms]
    agg_loop_Suc
  by simp

lemma FetchFeed_error_cases:
  assumes "feedURL \<noteq> []" and "NewRequest_err e feedURL = None"
  shows "client_Do e feedURL = Inl m \<Longrightarrow> fst (FetchFeed e feedURL) = Inl (ErrFetching m)"
    and "client_Do e feedURL = Inr res \<Longrightarrow> \<not> Contains (ContentType res) ''xml''
           \<Longrightarrow> fst (FetchFeed e feedURL) = Inl (ErrContentType (ContentType res))"
    and "client_Do e feedURL = Inr res \<Longrightarrow> Contains (ContentType res) ''xml''
           \<Longrightarrow> 300 \<le> StatusCode res
           \<Longrightarrow> fst (FetchFeed e feedURL) = Inl (ErrStatus (Status res))"
    and "client_Do e feedURL = Inr res \<Longrightarrow> Contains (ContentType res) ''xml''
           \<Longrightarrow> StatusCode res < 300 \<Longrightarrow> Body res = Inr data \<Longrightarrow> xml_Unmarshal e data = Inl m
           \<Longrightarrow> fst (FetchFeed e feedURL) = Inl (ErrUnmarshal m)"
  using assms by (simp_all add: FetchFeed_def)

text \<open>
  Claim C3. Once \<^verbatim>\<open>HandlerAgg\<close> has started its loop (the interval parsed to a positive
  duration), it neither returns nor panics: after every number of iterations it is
  still running. Its run after \<open>n + 1\<close> iterations is its run after \<open>n\<close> followed by one
  loop body in the environment of cycle \<open>n\<close>. And when in that cycle a feed is selected,
  marked, and its fetch fails with any error (transport, content type, status, XML),
  \<^verbatim>\<open>HandlerAgg\<close> goes on running, having printed that error after the events of the
  fetch and then waited for the ticker.
\<close>

theorem HandlerAgg_survives_feed_errors:
  assumes "Args cmd \<noteq> []" and "ParseDuration (Args cmd ! 0) = Inr d" and "0 < d"
  shows "fst (HandlerAgg ParseDuration envs (Some st) cmd w n) = Running
   \<and> HandlerAgg ParseDuration envs (Some st) cmd w (Suc n)
       = (Running, agg_iteration (envs n) (DB st)
                     (snd (HandlerAgg ParseDuration envs (Some st) cmd w n)))
   \<and> (\<forall>q f err.
         DB st = Some q
         \<and> queries_GetNextFeedToFetch (envs n)
             (feeds (snd (HandlerAgg ParseDuration envs (Some st) cmd w n))) = Inr f
         \<and> mark_fault (envs n) = None
         \<and> fst (FetchFeed (envs n) (Url f)) = Inl err \<longrightarrow>
         HandlerAgg ParseDuration envs (Some st) cmd w (Suc n) =
           (Running,
            emit ([Query_GetNextFeedToFetch, Exec_MarkFeedFetched (ID f),
                   Println (FetchingFeed (Name f) (Url f))] @ snd (FetchFeed (envs n) (Url f))
                  @ [Println (ErrorScraping (ErrFetchMarked (Name f) err)), TickerWait])
              ((snd (HandlerAgg ParseDuration envs (Some st) cmd w n))
                 \<lparr>feeds := MarkFeedFetched (NOW (envs n)) (ID f)
                    (feeds (snd (HandlerAgg ParseDuration envs (Some st) cmd w n)))\<rparr>)))"
proof (intro conjI allI impI)
  let ?w_n = "snd (HandlerAgg ParseDuration envs (Some st) cmd w n)"
  note step = HandlerAgg_next [where ParseDuration = ParseDuration and cmd = cmd, OF assms]
  show "fst (HandlerAgg ParseDuration envs (Some st) cmd w n) = Running"
    unfolding HandlerAgg_in_loop [where ParseDuration = ParseDuration and cmd = cmd, OF assms]
    by (rule agg_loop_Running)
  show "HandlerAgg ParseDuration envs (Some st) cmd w (Suc n)
       = (Running, agg_iteration (envs n) (DB st) ?w_n)"
    by (rule step)
  fix q f err
  assume h: "DB st = Some q
         \<and> queries_GetNextFeedToFetch (envs n) (feeds ?w_n) = Inr f
         \<and> mark_fault (envs n) = None
         \<and> fst (FetchFeed (envs n) (Url f)) = Inl err"
  then have q: "DB st = Some q"
    and sel: "queries_GetNextFeedToFetch (envs n) (feeds ?w_n) = Inr f"
    and mark: "mark_fault (envs n) = None"
    and fetch: "fst (FetchFeed (envs n) (Url f)) = Inl err"
    by simp_all
  have "agg_iteration (envs n) (DB st) ?w_n =
           emit ([Query_GetNextFeedToFetch, Exec_MarkFeedFetched (ID f),
                  Println (FetchingFeed (Name f) (Url f))] @ snd (FetchFeed (envs n) (Url f))
                 @ [Println (ErrorScraping (ErrFetchMarked (Name f) err)), TickerWait])
             (?w_n\<lparr>feeds := MarkFeedFetched (NOW (envs n)) (ID f) (feeds ?w_n)\<rparr>)"
    unfolding q using sel mark fetch by (rule agg_iteration_fetch_failed)
  then show "HandlerAgg ParseDuration envs (Some st) cmd w (Suc n) =
           (Running,
            emit ([Query_GetNextFeedToFetch, Exec_MarkFeedFetched (ID f),
                   Println (FetchingFeed (Name f) (Url f))] @ snd (FetchFeed (envs n) (Url f))
                  @ [Println (ErrorScraping (ErrFetchMarked (Name f) err)), TickerWait])
              (?w_n\<lparr>feeds := MarkFeedFetched (NOW (envs n)) (ID f) (feeds ?w_n)\<rparr>))"
    unfolding step by simp
qed

theorem HandlerAgg_survives_feed_errors_witness:
  "Args cmd_30s \<noteq> []
   \<and> ParseDuration_sample (Args cmd_30s ! 0) = Inr 30000000000
   \<and> (0::int) < 30000000000
   \<and> DB state_0 = Some Queries
   \<and> HandlerAgg ParseDuration_sample envs_sample (Some state_0) cmd_30s world_AB 0
       = (Running, emit [Println (CollectingEvery 30000000000)] world_AB)
   \<and> queries_GetNextFeedToFetch (envs_sample 0)
       (feeds (snd (HandlerAgg ParseDuration_sample envs_sample (Some state_0) cmd_30s world_AB 0)))
       = Inr feed_A
   \<and> mark_fault (envs_sample 0) = None
   \<and> fst (FetchFeed (envs_sample 0) (Url feed_A)) = Inl (ErrStatus ''500 Internal Server Error'')
   \<and> HandlerAgg ParseDuration_sample envs_sample (Some state_0) cmd_30s world_AB (Suc 0) =
        (Running,
         emit ([Query_GetNextFeedToFetch, Exec_MarkFeedFetched (ID feed_A),
                Println (FetchingFeed (Name feed_A) (Url feed_A))]
               @ snd (FetchFeed (envs_sample 0) (Url feed_A))
               @ [Println (ErrorScraping
                    (ErrFetchMarked (Name feed_A) (ErrStatus ''500 Internal Server Error''))),
                  TickerWait])
           ((snd (HandlerAgg ParseDuration_sample envs_sample (Some state_0) cmd_30s world_AB 0))
              \<lparr>feeds := MarkFeedFetched (NOW (envs_sample 0)) (ID feed_A)
                 (feeds (snd (HandlerAgg ParseDuration_sample envs_sample (Some state_0) cmd_30s
                               world_AB 0)))\<rparr>))
   \<and> trace (snd (HandlerAgg ParseDuration_sample envs_sample (Some state_0) cmd_30s world_AB
                    (Suc 0)))
       = [Println (CollectingEvery 30000000000), Query_GetNextFeedToFetch,
          Exec_MarkFeedFetched 1, Println (FetchingFeed ''A'' ''https://a.example/rss''),
          HTTP_GET ''https://a.example/rss'',
          Println (ErrorScraping (ErrFetchMarked ''A'' (ErrStatus ''500 Internal Server Error''))),
          TickerWait]
   \<and> fst (HandlerAgg ParseDuration_sample envs_sample (Some state_0) cmd_30s world_AB 2) = Running"
proof -
  have b1: "Args cmd_30s \<noteq> []" by (simp add: cmd_30s_def)
  have b2: "ParseDuration_sample (Args cmd_30s ! 0) = Inr 30000000000"
    by (simp add: cmd_30s_def ParseDuration_sample_def)
  have b3: "(0::int) < 30000000000" by simp
  have b4: "DB state_0 = Some Queries" by (simp add: state_0_def)
  have h0: "HandlerAgg ParseDuration_sample envs_sample (Some state_0) cmd_30s world_AB 0
              = (Running, emit [Println (CollectingEvery 30000000000)] world_AB)"
    by (simp add: HandlerAgg_def HandlerAgg_startup_def cmd_30s_def ParseDuration_sample_def)
  have sel: "queries_GetNextFeedToFetch (envs_sample 0)
       (feeds (snd (HandlerAgg ParseDuration_sample envs_sample (Some state_0) cmd_30s world_AB 0)))
       = Inr feed_A"
    unfolding h0
    by (simp add: queries_GetNextFeedToFetch_def envs_sample_def env_500_def world_AB_def
        feeds_emit GetNextFeedToFetch_Cons feed_A_def feed_B_def)
  have mark: "mark_fault (envs_sample 0) = None" by (simp add: envs_sample_def env_500_def)
  have fetch: "fst (FetchFeed (envs_sample 0) (Url feed_A))
                 = Inl (ErrStatus ''500 Internal Server Error'')"
    by (simp add: FetchFeed_def envs_sample_def env_500_def response_500_def feed_A_def)
  have events: "snd (FetchFeed (envs_sample 0) (Url feed_A)) = [HTTP_GET ''https://a.example/rss'']"
    by (simp add: FetchFeed_def envs_sample_def env_500_def response_500_def feed_A_def)
  note inst = HandlerAgg_survives_feed_errors
         [where ParseDuration = ParseDuration_sample and cmd = cmd_30s and envs = envs_sample
            and st = state_0 and w = world_AB, OF b1 b2 b3]
  note failed = inst [where n = 0, THEN conjunct2, THEN conjunct2, rule_format,
         OF conjI [OF b4 conjI [OF sel conjI [OF mark fetch]]]]
  have tr: "trace (snd (HandlerAgg ParseDuration_sample envs_sample (Some state_0) cmd_30s
                          world_AB (Suc 0)))
       = [Println (CollectingEvery 30000000000), Query_GetNextFeedToFetch,
          Exec_MarkFeedFetched 1, Println (FetchingFeed ''A'' ''https://a.example/rss''),
          HTTP_GET ''https://a.example/rss'',
          Println (ErrorScraping (ErrFetchMarked ''A'' (ErrStatus ''500 Internal Server Error''))),
          TickerWait]"
    unfolding failed h0 events by (simp add: emit_def world_AB_def feed_A_def)
  note still = inst [where n = 2, THEN conjunct1]
  show ?thesis
    by (rule conjI [OF b1 conjI [OF b2 conjI [OF b3 conjI [OF b4 conjI [OF h0 conjI [OF sel
          conjI [OF mark conjI [OF fetch conjI [OF failed conjI [OF tr still]]]]]]]]]])
qed

text \<open>
  Claim C10. Started with an interval that parses to a positive duration,
  \<^verbatim>\<open>HandlerAgg\<close> is at the head of its loop having printed one line and waited for
  nothing. For every \<open>n\<close>: when \<^verbatim>\<open>HandlerAgg\<close> has gone through \<open>n\<close> iterations it has
  waited exactly \<open>n\<close> times; its next iteration does the work of \<^verbatim>\<open>scrapeFeeds\<close> (which
  starts with the selection query when there is a database handle, and holds no wait)
  and only then waits for the ticker, once. For \<open>n = 0\<close>: the first scrape comes before
  the first wait.
\<close>

theorem HandlerAgg_scrapes_before_waiting:
  assumes "Args cmd \<noteq> []" and "ParseDuration (Args cmd ! 0) = Inr d" and "0 < d"
  shows "HandlerAgg ParseDuration envs (Some st) cmd w 0
           = (Running, emit [Println (CollectingEvery d)] w)
     \<and> (\<exists>w_n work.
          HandlerAgg ParseDuration envs (Some st) cmd w n = (Running, w_n)
          \<and> count_list (trace w_n) TickerWait = count_list (trace w) TickerWait + n
          \<and> trace (report_error (scrapeFeeds (envs n) (DB st) w_n)) = trace w_n @ work
          \<and> TickerWait \<notin> set work
          \<and> (\<forall>q. DB st = Some q \<longrightarrow> (\<exists>rest. work = Query_GetNextFeedToFetch # rest))
          \<and> HandlerAgg ParseDuration envs (Some st) cmd w (Suc n)
              = (Running, emit [TickerWait] (report_error (scrapeFeeds (envs n) (DB st) w_n)))
          \<and> trace (snd (HandlerAgg ParseDuration envs (Some st) cmd w (Suc n)))
              = trace w_n @ work @ [TickerWait])"
proof -
  let ?w0 = "emit [Println (CollectingEvery d)] w"
  let ?w_n = "snd (HandlerAgg ParseDuration envs (Some st) cmd w n)"
  note loop = HandlerAgg_in_loop [where ParseDuration = ParseDuration and cmd = cmd, OF assms]
  note step = HandlerAgg_next [where ParseDuration = ParseDuration and cmd = cmd, OF assms]
  have first: "HandlerAgg ParseDuration envs (Some st) cmd w 0 = (Running, ?w0)"
    unfolding loop by simp
  have "fst (HandlerAgg ParseDuration envs (Some st) cmd w n) = Running"
    unfolding loop by (rule agg_loop_Running)
  then have run: "HandlerAgg ParseDuration envs (Some st) cmd w n = (Running, ?w_n)"
    by (simp add: prod_eq_iff)
  have waits: "count_list (trace ?w_n) TickerWait = count_list (trace w) TickerWait + n"
    unfolding loop by (simp add: agg_loop_waits trace_emit)
  from report_error_trace [of "envs n" "DB st" ?w_n] obtain work
    where work: "trace (report_error (scrapeFeeds (envs n) (DB st) ?w_n)) = trace ?w_n @ work"
      and no: "TickerWait \<notin> set work"
      and q: "\<forall>q. DB st = Some q \<longrightarrow> (\<exists>rest. work = Query_GetNextFeedToFetch # rest)"
    by (elim exE conjE)
  have next_it: "HandlerAgg ParseDuration envs (Some st) cmd w (Suc n)
                = (Running, emit [TickerWait] (report_error (scrapeFeeds (envs n) (DB st) ?w_n)))"
    unfolding step by (simp add: agg_iteration_def)
  have tr: "trace (snd (HandlerAgg ParseDuration envs (Some st) cmd w (Suc n)))
              = trace ?w_n @ work @ [TickerWait]"
    unfolding next_it by (simp add: trace_emit work)
  show ?thesis
  proof (intro conjI exI)
    show "HandlerAgg ParseDuration envs (Some st) cmd w 0 = (Running, ?w0)" by (rule first)
    show "HandlerAgg ParseDuration envs (Some st) cmd w n = (Running, ?w_n)" by (rule run)
    show "count_list (trace ?w_n) TickerWait = count_list (trace w) TickerWait + n"
      by (rule waits)
    show "trace (report_error (scrapeFeeds (envs n) (DB st) ?w_n)) = trace ?w_n @ work"
      by (rule work)
    show "TickerWait \<notin> set work" by (rule no)
    show "\<forall>q. DB st = Some q \<longrightarrow> (\<exists>rest. work = Query_GetNextFeedToFetch # rest)" by (rule q)
    show "HandlerAgg ParseDuration envs (Some st) cmd w (Suc n)
            = (Running, emit [TickerWait] (report_error (scrapeFeeds (envs n) (DB st) ?w_n)))"
      by (rule next_it)
    show "trace (snd (HandlerAgg ParseDuration envs (Some st) cmd w (Suc n)))
              = trace ?w_n @ work @ [TickerWait]"
      by (rule tr)
  qed
qed

theorem HandlerAgg_scrapes_before_waiting_witness:
  "Args cmd_30s \<noteq> []
   \<and> ParseDuration_sample (Args cmd_30s ! 0) = Inr 30000000000
   \<and> (0::int) < 30000000000
   \<and> DB state_0 = Some Queries
   \<and> HandlerAgg ParseDuration_sample envs_sample (Some state_0) cmd_30s world_AB 0
       = (Running, emit [Println (CollectingEvery 30000000000)] world_AB)
   \<and> (\<exists>w_n work.
          HandlerAgg ParseDuration_sample envs_sample (Some state_0) cmd_30s world_AB 0
            = (Running, w_n)
          \<and> count_list (trace w_n) TickerWait = count_list (trace world_AB) TickerWait + 0
          \<and> trace (report_error (scrapeFeeds (envs_sample 0) (DB state_0) w_n)) = trace w_n @ work
          \<and> TickerWait \<notin> set work
          \<and> (\<forall>q. DB state_0 = Some q \<longrightarrow> (\<exists>rest. work = Query_GetNextFeedToFetch # rest))
          \<and> HandlerAgg ParseDuration_sample envs_sample (Some state_0) cmd_30s world_AB (Suc 0)
              = (Running,
                 emit [TickerWait] (report_error (scrapeFeeds (envs_sample 0) (DB state_0) w_n)))
          \<and> trace (snd (HandlerAgg ParseDuration_sample envs_sample (Some state_0) cmd_30s
                           world_AB (Suc 0)))
              = trace w_n @ work @ [TickerWait])"
proof -
  have b1: "Args cmd_30s \<noteq> []" by (simp add: cmd_30s_def)
  have b2: "ParseDuration_sample (Args cmd_30s ! 0) = Inr 30000000000"
    by (simp add: cmd_30s_def ParseDuration_sample_def)
  have b3: "(0::int) < 30000000000" by simp
  have b4: "DB state_0 = Some Queries" by (simp add: state_0_def)
  note inst = HandlerAgg_scrapes_before_waiting
         [where ParseDuration = ParseDuration_sample and cmd = cmd_30s and envs = envs_sample
            and st = state_0 and w = world_AB and n = 0, OF b1 b2 b3]
  show ?thesis
    by (rule conjI [OF b1 conjI [OF b2 conjI [OF b3 conjI [OF b4 inst]]]])
qed

text \<open>
  Claim C8, as amended. When the interval string does not parse, \<^verbatim>\<open>HandlerAgg\<close>
  returns the invalid-duration error with the world as it found it: nothing printed,
  no query, no request, and no iteration of the loop, however long it is observed. When
  the string parses to a positive duration, \<^verbatim>\<open>HandlerAgg\<close> does not return and the
  loop runs: after every number of iterations it is running, in the world those
  iterations have made from the first printed line.
\<close>

theorem HandlerAgg_duration_gate:
  assumes "Args cmd \<noteq> []"
  shows "(\<forall>m. ParseDuration (Args cmd ! 0) = Inl m \<longrightarrow>
            (\<forall>n. HandlerAgg ParseDuration envs (Some st) cmd w n
                    = (Returned (Some (ErrInvalidDuration m)), w)))
       \<and> (\<forall>d. ParseDuration (Args cmd ! 0) = Inr d \<and> 0 < d \<longrightarrow>
            (\<forall>n. fst (HandlerAgg ParseDuration envs (Some st) cmd w n) = Running
                 \<and> HandlerAgg ParseDuration envs (Some st) cmd w n
                     = agg_loop envs (DB st) 0 n (emit [Println (CollectingEvery d)] w)
                 \<and> HandlerAgg ParseDuration envs (Some st) cmd w (Suc n)
                     = (Running, agg_iteration (envs n) (DB st)
                          (snd (HandlerAgg ParseDuration envs (Some st) cmd w n)))))"
proof (intro conjI allI impI)
  fix m n
  assume "ParseDuration (Args cmd ! 0) = Inl m"
  from HandlerAgg_startup_invalid
         [where ParseDuration = ParseDuration and cmd = cmd, OF assms this, of st w]
  show "HandlerAgg ParseDuration envs (Some st) cmd w n
          = (Returned (Some (ErrInvalidDuration m)), w)"
    by (simp add: HandlerAgg_def)
next
  fix d n
  assume "ParseDuration (Args cmd ! 0) = Inr d \<and> 0 < d"
  then have p: "ParseDuration (Args cmd ! 0) = Inr d" and d: "0 < d" by simp_all
  note loop = HandlerAgg_in_loop [where ParseDuration = ParseDuration and cmd = cmd, OF assms p d]
  show "HandlerAgg ParseDuration envs (Some st) cmd w n
          = agg_loop envs (DB st) 0 n (emit [Println (CollectingEvery d)] w)"
    by (rule loop)
  show "fst (HandlerAgg ParseDuration envs (Some st) cmd w n) = Running"
    unfolding loop by (rule agg_loop_Running)
  show "HandlerAgg ParseDuration envs (Some st) cmd w (Suc n)
          = (Running, agg_iteration (envs n) (DB st)
               (snd (HandlerAgg ParseDuration envs (Some st) cmd w n)))"
    by (rule HandlerAgg_next [where ParseDuration = ParseDuration and cmd = cmd, OF assms p d])
qed

theorem HandlerAgg_duration_gate_witness:
  "Args cmd_soon \<noteq> []
   \<and> ParseDuration_sample (Args cmd_soon ! 0) = Inl ''time: invalid duration soon''
   \<and> HandlerAgg ParseDuration_sample envs_sample (Some state_0) cmd_soon world_AB 1
       = (Returned (Some (ErrInvalidDuration ''time: invalid duration soon'')), world_AB)
   \<and> Args cmd_30s \<noteq> []
   \<and> ParseDuration_sample (Args cmd_30s ! 0) = Inr 30000000000
   \<and> (0::int) < 30000000000
   \<and> fst (HandlerAgg ParseDuration_sample envs_sample (Some state_0) cmd_30s world_AB 1) = Running
   \<and> HandlerAgg ParseDuration_sample envs_sample (Some state_0) cmd_30s world_AB 1
       = agg_loop envs_sample (DB state_0) 0 1
           (emit [Println (CollectingEvery 30000000000)] world_AB)"
proof -
  have a1: "Args cmd_soon \<noteq> []" by (simp add: cmd_soon_def)
  have a2: "ParseDuration_sample (Args cmd_soon ! 0) = Inl ''time: invalid duration soon''"
    by (simp add: cmd_soon_def ParseDuration_sample_def)
  have b1: "Args cmd_30s \<noteq> []" by (simp add: cmd_30s_def)
  have b2: "ParseDuration_sample (Args cmd_30s ! 0) = Inr 30000000000"
    by (simp add: cmd_30s_def ParseDuration_sample_def)
  have b3: "(0::int) < 30000000000" by simp
  note a = HandlerAgg_duration_gate
         [where ParseDuration = ParseDuration_sample and cmd = cmd_soon and envs = envs_sample
            and st = state_0 and w = world_AB, OF a1, THEN conjunct1, rule_format, OF a2,
          where n = 1]
  note b = HandlerAgg_duration_gate
         [where ParseDuration = ParseDuration_sample and cmd = cmd_30s and envs = envs_sample
            and st = state_0 and w = world_AB, OF b1, THEN conjunct2, rule_format,
          OF conjI [OF b2 b3], where n = 1]
  show ?thesis
    by (rule conjI [OF a1 conjI [OF a2 conjI [OF a conjI [OF b1 conjI [OF b2 conjI [OF b3
          conjI [OF b [THEN conjunct1] b [THEN conjunct2, THEN conjunct1]]]]]]]])
qed

text \<open>
  The claim as stated fails at the interval \<^verbatim>\<open>0s\<close>: the string parses, to the duration
  zero, and \<^verbatim>\<open>time.NewTicker\<close> panics on it before the loop; \<^verbatim>\<open>HandlerAgg\<close> is never
  running, and the world is as it found it.
\<close>

theorem HandlerAgg_zero_interval_counterexample:
  "Args cmd_0s = [''0s'']
   \<and> ParseDuration_sample (Args cmd_0s ! 0) = Inr 0
   \<and> HandlerAgg ParseDuration_sample envs_sample (Some state_0) cmd_0s world_AB 0
       = (Panicked ''non-positive interval for NewTicker'', world_AB)
   \<and> HandlerAgg ParseDuration_sample envs_sample (Some state_0) cmd_0s world_AB 1
       = (Panicked ''non-positive interval for NewTicker'', world_AB)"
  by (simp add: cmd_0s_def ParseDuration_sample_def HandlerAgg_def HandlerAgg_startup_def)

section \<open>Unescaping in the fetcher\<close>

lemma unescape_feed_channel:
  "Title (Channel (unescape_feed u feed)) = u (Title (Channel feed))"
  "Description (Channel (unescape_feed u feed)) = u (Description (Channel feed))"
  "Generator (Channel (unescape_feed u feed)) = u (Generator (Channel feed))"
  "Language (Channel (unescape_feed u feed)) = u (Language (Channel feed))"
  "LastBuildDate (Channel (unescape_feed u feed)) = u (LastBuildDate (Channel feed))"
  "Href (Atom (Channel (unescape_feed u feed))) = u (Href (Atom (Channel feed)))"
  "Rel (Atom (Channel (unescape_feed u feed))) = u (Rel (Atom (Channel feed)))"
  "Type (Atom (Channel (unescape_feed u feed))) = u (Type (Atom (Channel feed)))"
  by (simp_all add: unescape_feed_def unescape_channel_def)

lemma unescape_feed_items:
  "Items (Channel (unescape_feed u feed)) = map (unescape_item u) (Items (Channel feed))"
  by (simp add: unescape_feed_def)

lemma unescape_item_fields:
  "Title_item (unescape_item u it) = u (Title_item it)"
  "Link_item (unescape_item u it) = u (Link_item it)"
  "PubDate (unescape_item u it) = u (PubDate it)"
  "GUID (unescape_item u it) = u (GUID it)"
  "Description_item (unescape_item u it) = u (Description_item it)"
  by (simp_all add: unescape_item_def)

text \<open>The channel's link has no assignment in the unescaping block: it comes back as parsed.\<close>

lemma unescape_feed_Link: "Link (Channel (unescape_feed u feed)) = Link (Channel feed)"
  by (simp add: unescape_feed_def unescape_channel_def)

lemma FetchFeed_ok:
  assumes "fst (FetchFeed e feedURL) = Inr feed"
  shows "\<exists>res data raw. client_Do e feedURL = Inr res \<and> Body res = Inr data
           \<and> xml_Unmarshal e data = Inr raw \<and> feed = unescape_feed (UnescapeString e) raw"
  using assms
  by (simp add: FetchFeed_def split: if_splits option.splits sum.splits)

text \<open>
  Claim C5, at a feed whose channel link holds an entity. The fetch succeeds, the
  channel's title and the item's link come back unescaped, and the channel's link comes
  back with the entity still in it, although unescaping would change it.
\<close>

theorem FetchFeed_channel_link_not_unescaped:
  "fst (FetchFeed env_ok ''https://a.example/rss'') = Inr (unescape_feed unescape_amp feed_escaped)
   \<and> Title (Channel (unescape_feed unescape_amp feed_escaped)) = ''News & more''
   \<and> map Link_item (Items (Channel (unescape_feed unescape_amp feed_escaped)))
       = [''https://a.example/p?x=1&y=2'']
   \<and> Link (Channel (unescape_feed unescape_amp feed_escaped)) = ''https://a.example/?x=1&amp;y=2''
   \<and> UnescapeString env_ok ''https://a.example/?x=1&amp;y=2'' = ''https://a.example/?x=1&y=2''"
proof (intro conjI)
  show "fst (FetchFeed env_ok ''https://a.example/rss'')
          = Inr (unescape_feed unescape_amp feed_escaped)"
    by (simp add: FetchFeed_def env_ok_def response_ok_def)
  show "Title (Channel (unescape_feed unescape_amp feed_escaped)) = ''News & more''"
    by (simp add: unescape_feed_channel feed_escaped_def)
  show "map Link_item (Items (Channel (unescape_feed unescape_amp feed_escaped)))
          = [''https://a.example/p?x=1&y=2'']"
    by (simp add: unescape_feed_items unescape_item_fields feed_escaped_def)
  show "Link (Channel (unescape_feed unescape_amp feed_escaped)) = ''https://a.example/?x=1&amp;y=2''"
    by (simp add: unescape_feed_Link feed_escaped_def)
  show "UnescapeString env_ok ''https://a.example/?x=1&amp;y=2'' = ''https://a.example/?x=1&y=2''"
    by (simp add: env_ok_def)
qed

section \<open>Setting the user\<close>

text \<open>
  Claim C9. When \<^verbatim>\<open>SetUser\<close> succeeds, the configuration it returns is the one it
  read from the file with the user name replaced, and nothing else: the database URL
  is the one read, the name is the given one. That same struct is what it marshals and
  writes to the configuration file, and the file is the only thing it changes.
\<close>

theorem SetUser_changes_only_the_name:
  assumes "SetUser codec userName sys = ((cfg', None), sys')"
  shows "\<exists>cfg configPath jsonData.
           Read codec sys = (cfg, None)
         \<and> cfg' = cfg\<lparr>Name_config := Some userName\<rparr>
         \<and> URL cfg' = URL cfg
         \<and> Name_config cfg' = Some userName
         \<and> getConfigPath sys = Inr configPath
         \<and> MarshalIndent codec cfg' = Inr jsonData
         \<and> sys' = sys\<lparr>files := (files sys)(configPath := Contents jsonData)\<rparr>"
proof -
  let ?cfg = "fst (Read codec sys)"
  from assms have read_ok: "snd (Read codec sys) = None"
    by (simp add: SetUser_def split: option.splits)
  with assms have cfg': "cfg' = ?cfg\<lparr>Name_config := Some userName\<rparr>"
    by (auto simp: SetUser_def Let_def split: option.splits)
  from assms read_ok have "fst (write_config codec cfg' sys) = None"
    and "snd (write_config codec cfg' sys) = sys'"
    unfolding cfg' by (auto simp: SetUser_def Let_def split: option.splits)
  then have wr: "write_config codec cfg' sys = (None, sys')"
    by (simp add: prod_eq_iff)
  from wr obtain configPath jsonData where path: "getConfigPath sys = Inr configPath"
    and data: "MarshalIndent codec cfg' = Inr jsonData"
    and sys': "sys' = sys\<lparr>files := (files sys)(configPath := Contents jsonData)\<rparr>"
    by (auto simp: write_config_def split: sum.splits option.splits)
  from read_ok have rd: "Read codec sys = (?cfg, None)" by (simp add: prod_eq_iff)
  from cfg' have url: "URL cfg' = URL ?cfg" and name: "Name_config cfg' = Some userName"
    by simp_all
  show ?thesis
    by (rule exI [of _ ?cfg], rule exI [of _ configPath], rule exI [of _ jsonData])
       (rule conjI [OF rd conjI [OF cfg' conjI [OF url conjI [OF name
          conjI [OF path conjI [OF data sys']]]]]])
qed

theorem SetUser_changes_only_the_name_witness:
  "SetUser json_sample ''lane'' os_sample =
     ((config_before\<lparr>Name_config := Some ''lane''\<rparr>, None),
      os_sample\<lparr>files := (files os_sample)
                   (''/home/lane/.gatorconfig.json'' := Contents json_after)\<rparr>)
   \<and> (\<exists>cfg configPath jsonData.
           Read json_sample os_sample = (cfg, None)
         \<and> config_before\<lparr>Name_config := Some ''lane''\<rparr> = cfg\<lparr>Name_config := Some ''lane''\<rparr>
         \<and> URL (config_before\<lparr>Name_config := Some ''lane''\<rparr>) = URL cfg
         \<and> Name_config (config_before\<lparr>Name_config := Some ''lane''\<rparr>) = Some ''lane''
         \<and> getConfigPath os_sample = Inr configPath
         \<and> MarshalIndent json_sample (config_before\<lparr>Name_config := Some ''lane''\<rparr>) = Inr jsonData
         \<and> os_sample\<lparr>files := (files os_sample)
                   (''/home/lane/.gatorconfig.json'' := Contents json_after)\<rparr>
             = os_sample\<lparr>files := (files os_sample)(configPath := Contents jsonData)\<rparr>)"
proof -
  have h: "SetUser json_sample ''lane'' os_sample =
     ((config_before\<lparr>Name_config := Some ''lane''\<rparr>, None),
      os_sample\<lparr>files := (files os_sample)
                   (''/home/lane/.gatorconfig.json'' := Contents json_after)\<rparr>)"
    by (simp add: SetUser_def Read_def write_config_def getConfigPath_def configFileName_def
        os_sample_def json_sample_def Let_def)
  show ?thesis
    by (rule conjI [OF h SetUser_changes_only_the_name [OF h]])
qed

section \<open>Ingestion\<close>

lemma fold_max_ge: "(a::nat) \<le> fold max xs a"
proof (induction xs arbitrary: a)
  case Nil
  show ?case by simp
next
  case (Cons x xs)
  have "a \<le> max x a" by simp
  also have "\<dots> \<le> fold max xs (max x a)" by (rule Cons.IH)
  finally show ?case by simp
qed

lemma fold_max_mem: "x \<in> set xs \<Longrightarrow> (x::nat) \<le> fold max xs a"
proof (induction xs arbitrary: a)
  case Nil
  then show ?case by simp
next
  case (Cons y ys)
  show ?case
  proof (cases "x = y")
    case True
    have "x \<le> max y a" using True by simp
    also have "\<dots> \<le> fold max ys (max y a)" by (rule fold_max_ge)
    finally show ?thesis by simp
  next
    case False
    with Cons.prems have "x \<in> set ys" by simp
    then have "x \<le> fold max ys (max y a)" by (rule Cons.IH)
    then show ?thesis by simp
  qed
qed

lemma fresh_uuid_new: "fresh_uuid rows \<notin> ID_post ` set rows"
proof
  assume "fresh_uuid rows \<in> ID_post ` set rows"
  then have "fresh_uuid rows \<in> set (map ID_post rows)" by simp
  then have "fresh_uuid rows \<le> fold max (map ID_post rows) 0" by (rule fold_max_mem)
  then show False by (simp add: fresh_uuid_def)
qed

text \<open>The four ways an item goes.\<close>

lemma ingest_item_invalid:
  assumes "Title_item item = [] \<or> Link_item item = []"
  shows "ingest_item parse_date now feed_rows f item rows = (Skipped_invalid, rows)"
  using assms by (simp add: ingest_item_def)

lemma ingest_item_duplicate:
  assumes "Title_item item \<noteq> []" and "Link_item item \<noteq> []"
    and "Link_item item \<in> Url_post ` set rows"
  shows "ingest_item parse_date now feed_rows f item rows = (Skipped_duplicate, rows)"
  using assms fresh_uuid_new [of rows]
  by (simp add: ingest_item_def CreatePost_def candidate_post_def)

lemma ingest_item_no_feed:
  assumes "Title_item item \<noteq> []" and "Link_item item \<noteq> []"
    and "Link_item item \<notin> Url_post ` set rows" and "ID f \<notin> ID ` set feed_rows"
  shows "ingest_item parse_date now feed_rows f item rows = (Skipped_error, rows)"
  using assms fresh_uuid_new [of rows]
  by (simp add: ingest_item_def CreatePost_def candidate_post_def)

lemma ingest_item_new:
  assumes "Title_item item \<noteq> []" and "Link_item item \<noteq> []"
    and "Link_item item \<notin> Url_post ` set rows" and "ID f \<in> ID ` set feed_rows"
  shows "ingest_item parse_date now feed_rows f item rows
           = (Inserted, rows @ [candidate_post parse_date now (fresh_uuid rows) f item])"
  using assms fresh_uuid_new [of rows]
  by (simp add: ingest_item_def CreatePost_def candidate_post_def)

lemma ingest_item_cases:
  obtains (invalid) "Title_item item = [] \<or> Link_item item = []"
      "ingest_item parse_date now feed_rows f item rows = (Skipped_invalid, rows)"
  | (duplicate) "Title_item item \<noteq> []" "Link_item item \<noteq> []"
      "Link_item item \<in> Url_post ` set rows"
      "ingest_item parse_date now feed_rows f item rows = (Skipped_duplicate, rows)"
  | (no_feed) "Title_item item \<noteq> []" "Link_item item \<noteq> []"
      "Link_item item \<notin> Url_post ` set rows" "ID f \<notin> ID ` set feed_rows"
      "ingest_item parse_date now feed_rows f item rows = (Skipped_error, rows)"
  | (new) "Title_item item \<noteq> []" "Link_item item \<noteq> []"
      "Link_item item \<notin> Url_post ` set rows" "ID f \<in> ID ` set feed_rows"
      "ingest_item parse_date now feed_rows f item rows
         = (Inserted, rows @ [candidate_post parse_date now (fresh_uuid rows) f item])"
proof (cases "Title_item item = [] \<or> Link_item item = []")
  case True
  then show ?thesis by (rule invalid) (rule ingest_item_invalid [OF True])
next
  case False
  then have t: "Title_item item \<noteq> []" and l: "Link_item item \<noteq> []" by simp_all
  show ?thesis
  proof (cases "Link_item item \<in> Url_post ` set rows")
    case True
    from t l True show ?thesis by (rule duplicate) (rule ingest_item_duplicate [OF t l True])
  next
    case new_url: False
    show ?thesis
    proof (cases "ID f \<in> ID ` set feed_rows")
      case True
      from t l new_url True show ?thesis
        by (rule new) (rule ingest_item_new [OF t l new_url True])
    next
      case False
      from t l new_url False show ?thesis
        by (rule no_feed) (rule ingest_item_no_feed [OF t l new_url False])
    qed
  qed
qed

text \<open>An item that is not stored leaves the posts as they were; a stored one adds its url.\<close>

lemma ingest_item_urls:
  "Url_post ` set (snd (ingest_item parse_date now feed_rows f item rows))
     = (if fst (ingest_item parse_date now feed_rows f item rows) = Inserted
        then insert (Link_item item) (Url_post ` set rows) else Url_post ` set rows)"
  by (cases rule: ingest_item_cases [of item parse_date now feed_rows f rows])
     (simp_all add: candidate_post_def)

lemma ingest_items_keeps_urls:
  "Url_post ` set rows \<subseteq> Url_post ` set (snd (ingest_items parse_date now feed_rows f items rows))"
proof (induction items arbitrary: rows)
  case Nil
  show ?case by simp
next
  case (Cons item items)
  let ?step = "ingest_item parse_date now feed_rows f item rows"
  have "Url_post ` set rows \<subseteq> Url_post ` set (snd ?step)"
    unfolding ingest_item_urls by auto
  also have "\<dots> \<subseteq> Url_post ` set (snd (ingest_items parse_date now feed_rows f items (snd ?step)))"
    by (rule Cons.IH)
  finally show ?case by (simp add: Let_def)
qed

text \<open>
  After an ingestion every item of the feed is settled: it has no title or no url, or
  its feed is not in the feeds table, or a post with its url is stored.
\<close>

lemma ingest_items_settles:
  assumes "item \<in> set items"
  shows "Title_item item = [] \<or> Link_item item = [] \<or> ID f \<notin> ID ` set feed_rows
         \<or> Link_item item \<in> Url_post ` set (snd (ingest_items parse_date now feed_rows f items rows))"
  using assms
proof (induction items arbitrary: rows)
  case Nil
  then show ?case by simp
next
  case (Cons x xs)
  let ?step = "ingest_item parse_date now feed_rows f x rows"
  let ?rest = "ingest_items parse_date now feed_rows f xs (snd ?step)"
  have final: "snd (ingest_items parse_date now feed_rows f (x # xs) rows) = snd ?rest"
    by (simp add: Let_def)
  show ?case
  proof (cases "item \<in> set xs")
    case True
    from Cons.IH [OF True, of "snd ?step"] show ?thesis unfolding final .
  next
    case False
    with Cons.prems have x: "item = x" by simp
    have keep: "Url_post ` set (snd ?step) \<subseteq> Url_post ` set (snd ?rest)"
      by (rule ingest_items_keeps_urls)
    show ?thesis
    proof (cases rule: ingest_item_cases [of x parse_date now feed_rows f rows])
      case invalid
      then show ?thesis unfolding x by blast
    next
      case duplicate
      from duplicate(3,4) have "Link_item x \<in> Url_post ` set (snd ?step)" by simp
      with keep show ?thesis unfolding final x by blast
    next
      case no_feed
      then show ?thesis by blast
    next
      case new
      from new(5) have "Link_item x \<in> Url_post ` set (snd ?step)"
        by (simp add: candidate_post_def)
      with keep show ?thesis unfolding final x by blast
    qed
  qed
qed

lemma ingest_items_settled:
  assumes "\<And>item. item \<in> set items \<Longrightarrow>
             Title_item item = [] \<or> Link_item item = [] \<or> ID f \<notin> ID ` set feed_rows
             \<or> Link_item item \<in> Url_post ` set rows"
  shows "ingest_items parse_date now feed_rows f items rows
           = (\<lparr>inserted = 0, skipped = length items\<rparr>, rows)"
  using assms
proof (induction items)
  case Nil
  show ?case by simp
next
  case (Cons x xs)
  have "Title_item x = [] \<or> Link_item x = [] \<or> ID f \<notin> ID ` set feed_rows
          \<or> Link_item x \<in> Url_post ` set rows"
    by (rule Cons.prems) simp
  then have step: "snd (ingest_item parse_date now feed_rows f x rows) = rows
                   \<and> fst (ingest_item parse_date now feed_rows f x rows) \<noteq> Inserted"
    by (cases rule: ingest_item_cases [of x parse_date now feed_rows f rows]) auto
  have rest: "ingest_items parse_date now feed_rows f xs rows
                = (\<lparr>inserted = 0, skipped = length xs\<rparr>, rows)"
    by (rule Cons.IH) (rule Cons.prems, simp)
  from step rest show ?case by (simp add: Let_def count_outcome_def)
qed


text \<open>
  Claim C4. Ingesting the same parsed feed a second time, on the posts the first
  ingestion left, inserts nothing: every item is skipped and the stored posts are the
  same. And an item with a title whose url is already the url of a stored post, of
  whatever feed, is skipped as a duplicate and changes nothing.
\<close>

theorem ingest_twice_adds_nothing:
  "ingest parse_date now2 feed_rows f parsed
       (snd (ingest parse_date now1 feed_rows f parsed rows))
     = (\<lparr>inserted = 0, skipped = length (Items (Channel parsed))\<rparr>,
        snd (ingest parse_date now1 feed_rows f parsed rows))
   \<and> (Title_item item \<noteq> [] \<and> Link_item item \<noteq> [] \<and> Link_item item \<in> Url_post ` set rows
        \<longrightarrow> ingest_item parse_date now feed_rows g item rows = (Skipped_duplicate, rows))"
proof (intro conjI impI)
  show "ingest parse_date now2 feed_rows f parsed
       (snd (ingest parse_date now1 feed_rows f parsed rows))
     = (\<lparr>inserted = 0, skipped = length (Items (Channel parsed))\<rparr>,
        snd (ingest parse_date now1 feed_rows f parsed rows))"
    unfolding ingest_def by (rule ingest_items_settled) (rule ingest_items_settles)
next
  assume "Title_item item \<noteq> [] \<and> Link_item item \<noteq> [] \<and> Link_item item \<in> Url_post ` set rows"
  then show "ingest_item parse_date now feed_rows g item rows = (Skipped_duplicate, rows)"
    by (simp add: ingest_item_duplicate)
qed

theorem ingest_twice_adds_nothing_witness:
  "length (snd (ingest parse_date_sample 2000 [feed_A, feed_B] feed_A parsed_sample [post_old])) = 3
   \<and> ingest parse_date_sample 3000 [feed_A, feed_B] feed_A parsed_sample
         (snd (ingest parse_date_sample 2000 [feed_A, feed_B] feed_A parsed_sample [post_old]))
       = (\<lparr>inserted = 0, skipped = length (Items (Channel parsed_sample))\<rparr>,
          snd (ingest parse_date_sample 2000 [feed_A, feed_B] feed_A parsed_sample [post_old]))
   \<and> Title_item item_hello \<noteq> []
   \<and> Link_item item_hello \<noteq> []
   \<and> Link_item item_hello \<in> Url_post ` set
         (snd (ingest parse_date_sample 2000 [feed_A, feed_B] feed_A parsed_sample [post_old]))
   \<and> ingest_item parse_date_sample 3000 [feed_A, feed_B] feed_B item_hello
         (snd (ingest parse_date_sample 2000 [feed_A, feed_B] feed_A parsed_sample [post_old]))
       = (Skipped_duplicate,
          snd (ingest parse_date_sample 2000 [feed_A, feed_B] feed_A parsed_sample [post_old]))"
proof -
  let ?rows = "snd (ingest parse_date_sample 2000 [feed_A, feed_B] feed_A parsed_sample [post_old])"
  have rows: "?rows =
     [post_old,
      candidate_post parse_date_sample 2000 6 feed_A item_hello,
      candidate_post parse_date_sample 2000 7 feed_A item_undated]"
    by (simp add: ingest_def parsed_sample_def Let_def ingest_item_def CreatePost_def
        candidate_post_def fresh_uuid_def item_hello_def item_again_def item_undated_def
        post_old_def feed_A_def feed_B_def)
  have n: "length ?rows = 3" unfolding rows by simp
  have t: "Title_item item_hello \<noteq> []" by (simp add: item_hello_def)
  have l: "Link_item item_hello \<noteq> []" by (simp add: item_hello_def)
  have u: "Link_item item_hello \<in> Url_post ` set ?rows"
    unfolding rows by (simp add: candidate_post_def)
  note twice = ingest_twice_adds_nothing
         [where parse_date = parse_date_sample and ?now2.0 = 3000 and ?now1.0 = 2000
            and feed_rows = "[feed_A, feed_B]" and f = feed_A and parsed = parsed_sample
            and rows = "[post_old]", THEN conjunct1]
  note dup = ingest_twice_adds_nothing
         [where parse_date = parse_date_sample and now = 3000
            and feed_rows = "[feed_A, feed_B]" and g = feed_B and item = item_hello
            and rows = ?rows, THEN conjunct2, rule_format, OF conjI [OF t conjI [OF l u]]]
  show ?thesis
    by (rule conjI [OF n conjI [OF twice conjI [OF t conjI [OF l conjI [OF u dup]]]]])
qed



end
